theory Spec2Isabelle
  imports Main "HOL-Library.Sublist"
begin

section \<open>Go strings\<close>

text \<open>
  A Go \<^verbatim>\<open>string\<close> is a sequence of bytes, and \<^verbatim>\<open>len\<close> and slicing count bytes:
  it is modelled as \<^typ>\<open>string\<close>, a list of 8-bit characters. A rune (code point) is a
  natural number.
\<close>

definition byte :: "char \<Rightarrow> nat" where
  "byte c = of_char c"

definition chr :: "nat \<Rightarrow> char" where
  "chr n = char_of n"

subsection \<open>Package unicode/utf8\<close>

definition RuneError :: nat where
  "RuneError = 0xFFFD"

text \<open>
  \<^verbatim>\<open>utf8.DecodeRuneInString\<close>: the rune at the front of the string and its width in
  bytes; an invalid or short encoding gives \<^verbatim>\<open>(RuneError, 1)\<close>, the empty string
  \<^verbatim>\<open>(RuneError, 0)\<close>. The accepted range of the second byte depends on the first
  (\<^verbatim>\<open>acceptRanges\<close>).
\<close>

definition DecodeRuneInString :: "string \<Rightarrow> nat \<times> nat" where
  "DecodeRuneInString s =
     (case map byte s of
        [] \<Rightarrow> (RuneError, 0)
      | s0 # t0 \<Rightarrow>
          if s0 < 0x80 then (s0, 1)
          else if s0 < 0xC2 \<or> 0xF4 < s0 then (RuneError, 1)
          else
            let sz = (if s0 < 0xE0 then 2 else if s0 < 0xF0 then 3 else (4::nat));
                lo = (if s0 = 0xE0 then 0xA0 else if s0 = 0xF0 then 0x90 else (0x80::nat));
                hi = (if s0 = 0xED then 0x9F else if s0 = 0xF4 then 0x8F else (0xBF::nat))
            in if length s < sz then (RuneError, 1)
               else (case t0 of
                  [] \<Rightarrow> (RuneError, 1)
                | s1 # t1 \<Rightarrow>
                    if s1 < lo \<or> hi < s1 then (RuneError, 1)
                    else if sz \<le> 2 then ((s0 mod 0x20) * 0x40 + s1 mod 0x40, 2)
                    else (case t1 of
                       [] \<Rightarrow> (RuneError, 1)
                     | s2 # t2 \<Rightarrow>
                         if s2 < 0x80 \<or> 0xBF < s2 then (RuneError, 1)
                         else if sz \<le> 3
                           then ((s0 mod 0x10) * 0x1000 + (s1 mod 0x40) * 0x40 + s2 mod 0x40, 3)
                         else (case t2 of
                            [] \<Rightarrow> (RuneError, 1)
                          | s3 # t3 \<Rightarrow>
                              if s3 < 0x80 \<or> 0xBF < s3 then (RuneError, 1)
                              else ((s0 mod 8) * 0x40000 + (s1 mod 0x40) * 0x1000
                                      + (s2 mod 0x40) * 0x40 + s3 mod 0x40, 4)))))"

text \<open>
  \<^verbatim>\<open>utf8.AppendRune\<close> to the empty buffer: the UTF-8 encoding of a rune; a surrogate
  or a value past \<^verbatim>\<open>MaxRune\<close> is written as \<^verbatim>\<open>RuneError\<close>.
\<close>

definition EncodeRune :: "nat \<Rightarrow> string" where
  "EncodeRune r =
     (if r \<le> 0x7F then [chr r]
      else if r \<le> 0x7FF then [chr (0xC0 + r div 0x40), chr (0x80 + r mod 0x40)]
      else if 0x10FFFF < r \<or> (0xD800 \<le> r \<and> r \<le> 0xDFFF) then [chr 0xEF, chr 0xBF, chr 0xBD]
      else if r \<le> 0xFFFF
        then [chr (0xE0 + r div 0x1000), chr (0x80 + (r div 0x40) mod 0x40), chr (0x80 + r mod 0x40)]
      else [chr (0xF0 + r div 0x40000), chr (0x80 + (r div 0x1000) mod 0x40),
            chr (0x80 + (r div 0x40) mod 0x40), chr (0x80 + r mod 0x40)])"

lemma DecodeRuneInString_width: "s \<noteq> [] \<Longrightarrow> 0 < snd (DecodeRuneInString s)"
  by (cases s) (auto simp: DecodeRuneInString_def Let_def split: list.splits)

lemma DecodeRuneInString_advance:
  assumes "s \<noteq> []" and "(r, w) = DecodeRuneInString s"
  shows "length s - w < length s"
proof -
  have "0 < w" using DecodeRuneInString_width [OF assms(1)] assms(2) by (metis snd_conv)
  moreover have "0 < length s" using assms(1) by simp
  ultimately show ?thesis by arith
qed

text \<open>
  \<^verbatim>\<open>for _, c := range s\<close>: the runes of a string in order. An invalid byte yields
  \<^verbatim>\<open>RuneError\<close> and the iteration advances by one byte.
\<close>

function runes :: "string \<Rightarrow> nat list" where
  "runes s =
     (if s = [] then []
      else (case DecodeRuneInString s of (r, w) \<Rightarrow> r # runes (drop w s)))"
  by pat_completeness auto
termination
  by (relation "measure length") (auto intro: DecodeRuneInString_advance)

declare runes.simps [simp del]

subsection \<open>Package unicode\<close>

text \<open>
  \<^verbatim>\<open>unicode.ToLower\<close>: ASCII is handled in the function itself; every other rune
  is looked up in the case table \<^verbatim>\<open>unicode.CaseRanges\<close>. The table lookup
  \<^verbatim>\<open>To(LowerCase, r)\<close> is the parameter \<open>tbl\<close>.
\<close>

definition unicode_ToLower :: "(nat \<Rightarrow> nat) \<Rightarrow> nat \<Rightarrow> nat" where
  "unicode_ToLower tbl r =
     (if r \<le> 0x7F then (if 0x41 \<le> r \<and> r \<le> 0x5A then r + 0x20 else r) else tbl r)"

subsection \<open>Package strings\<close>

definition isASCII :: "string \<Rightarrow> bool" where
  "isASCII s = list_all (\<lambda>c. byte c < 0x80) s"

definition lowerByte :: "char \<Rightarrow> char" where
  "lowerByte c = (if 0x41 \<le> byte c \<and> byte c \<le> 0x5A then chr (byte c + 0x20) else c)"

text \<open>
  \<^verbatim>\<open>strings.Map(mapping, s)\<close> for a mapping that returns no negative rune: every
  rune of \<open>s\<close> is mapped and encoded again.
\<close>

definition strings_Map :: "(nat \<Rightarrow> nat) \<Rightarrow> string \<Rightarrow> string" where
  "strings_Map mapping s = concat (map (\<lambda>c. EncodeRune (mapping c)) (runes s))"

text \<open>
  \<^verbatim>\<open>strings.ToLower\<close>: an ASCII-only string is lower-cased byte by byte; any other
  string goes through \<^verbatim>\<open>Map(unicode.ToLower, s)\<close>.
\<close>

definition ToLower :: "(nat \<Rightarrow> nat) \<Rightarrow> string \<Rightarrow> string" where
  "ToLower tbl s =
     (if isASCII s then map lowerByte s else strings_Map (unicode_ToLower tbl) s)"

definition HasPrefix :: "string \<Rightarrow> string \<Rightarrow> bool" where
  "HasPrefix s p = (length p \<le> length s \<and> take (length p) s = p)"

definition TrimPrefix :: "string \<Rightarrow> string \<Rightarrow> string" where
  "TrimPrefix s p = (if HasPrefix s p then drop (length p) s else s)"

text \<open>\<^verbatim>\<open>strings.Index\<close>: the position of the first occurrence, \<open>None\<close> for \<^verbatim>\<open>-1\<close>.\<close>

fun Index :: "string \<Rightarrow> string \<Rightarrow> nat option" where
  "Index [] sep = (if sep = [] then Some 0 else None)"
| "Index (c # cs) sep =
     (if HasPrefix (c # cs) sep then Some 0 else map_option Suc (Index cs sep))"

definition Contains :: "string \<Rightarrow> string \<Rightarrow> bool" where
  "Contains s sub = (Index s sub \<noteq> None)"

lemma Index_bound: "Index s sep = Some j \<Longrightarrow> j + length sep \<le> length s"
  by (induction s arbitrary: j) (auto simp: HasPrefix_def split: if_splits)

lemma Index_advance:
  assumes "sep \<noteq> []" and "Index s sep = Some j"
  shows "length s - (j + length sep) < length s"
proof -
  have "j + length sep \<le> length s" using assms(2) by (rule Index_bound)
  moreover have "0 < length sep" using assms(1) by simp
  ultimately show ?thesis by arith
qed

text \<open>
  \<^verbatim>\<open>strings.ReplaceAll(s, old, new)\<close> and \<^verbatim>\<open>strings.Split(s, sep)\<close>: the
  occurrences are found from the left and do not overlap. The program calls both with a
  non-empty \<open>old\<close> and \<open>sep\<close> only; the rune-wise behaviour of the library on an
  empty one is not modelled (the string is returned as it is).
\<close>

function Replace_loop :: "string \<Rightarrow> string \<Rightarrow> string \<Rightarrow> string" where
  "Replace_loop s old new =
     (if old = [] then s
      else (case Index s old of
              None \<Rightarrow> s
            | Some j \<Rightarrow> take j s @ new @ Replace_loop (drop (j + length old) s) old new))"
  by pat_completeness auto
termination
  by (relation "measure (\<lambda>(s, old, new). length s)") (auto intro: Index_advance)

declare Replace_loop.simps [simp del]

definition ReplaceAll :: "string \<Rightarrow> string \<Rightarrow> string \<Rightarrow> string" where
  "ReplaceAll s old new = (if old = new then s else Replace_loop s old new)"

function Split :: "string \<Rightarrow> string \<Rightarrow> string list" where
  "Split s sep =
     (if sep = [] then [s]
      else (case Index s sep of
              None \<Rightarrow> [s]
            | Some m \<Rightarrow> take m s # Split (drop (m + length sep) s) sep))"
  by pat_completeness auto
termination
  by (relation "measure (\<lambda>(s, sep). length s)") (auto intro: Index_advance)

declare Split.simps [simp del]

text \<open>\<^verbatim>\<open>strings.Trim(s, cutset)\<close> for a cutset of ASCII bytes.\<close>

definition Trim :: "string \<Rightarrow> string \<Rightarrow> string" where
  "Trim s cutset =
     rev (dropWhile (\<lambda>c. c \<in> set cutset) (rev (dropWhile (\<lambda>c. c \<in> set cutset) s)))"

subsection \<open>Packages path/filepath and net/url\<close>

text \<open>\<^verbatim>\<open>filepath.Ext\<close> and \<^verbatim>\<open>filepath.Base\<close>, with \<^verbatim>\<open>/\<close> as the separator.\<close>

definition filepath_Ext :: "string \<Rightarrow> string" where
  "filepath_Ext path =
     (let elem = takeWhile (\<lambda>c. c \<noteq> CHR ''/'') (rev path)
      in if CHR ''.'' \<in> set elem
         then CHR ''.'' # rev (takeWhile (\<lambda>c. c \<noteq> CHR ''.'') elem)
         else [])"

definition filepath_Base :: "string \<Rightarrow> string" where
  "filepath_Base path =
     (if path = [] then ''.''
      else let path = rev (dropWhile (\<lambda>c. c = CHR ''/'') (rev path));
               path = rev (takeWhile (\<lambda>c. c \<noteq> CHR ''/'') (rev path))
           in if path = [] then ''/'' else path)"

definition TrimSuffix :: "string \<Rightarrow> string \<Rightarrow> string" where
  "TrimSuffix s suf =
     (if length suf \<le> length s \<and> drop (length s - length suf) s = suf
      then take (length s - length suf) s else s)"

text \<open>
  What the program reads of a parsed \<^verbatim>\<open>*url.URL\<close>: three of its fields and the
  value of its \<^verbatim>\<open>String\<close> method. \<^verbatim>\<open>url.Parse\<close> itself is a parameter of the
  model, \<open>None\<close> when it returns an error.
\<close>

record url_URL =
  Scheme :: string
  Host :: string
  Path :: string
  url_String :: string

type_synonym error = string

section \<open>The program\<close>

datatype Organization = SingleFile | ByChapters | ByPages

record Page =
  Title :: string
  Content :: string
  URL :: string
  Filename :: string
  Level :: int

text \<open>
  The scraper. The HTTP client and the two delay bounds (floating point, used only to
  sleep between requests) are left out. A Go \<^verbatim>\<open>map[string]bool\<close> is a partial map;
  reading a missing key gives \<^verbatim>\<open>false\<close>.
\<close>

record Scraper =
  baseURL :: string
  outputPath :: string
  outputDir :: string
  visitedURLs :: "string \<rightharpoonup> bool"
  domainPrefix :: string
  organization :: Organization
  pages :: "Page list"
  singlePage :: bool

definition map_get :: "(string \<rightharpoonup> bool) \<Rightarrow> string \<Rightarrow> bool" where
  "map_get m k = (case m k of None \<Rightarrow> False | Some b \<Rightarrow> b)"

definition sanitizeURL :: "(string \<Rightarrow> url_URL option) \<Rightarrow> string \<Rightarrow> string" where
  "sanitizeURL parse rawURL =
     (case parse rawURL of None \<Rightarrow> rawURL | Some u \<Rightarrow> url_String u)"

definition extractDomainPrefix :: "(string \<Rightarrow> url_URL option) \<Rightarrow> string \<Rightarrow> string" where
  "extractDomainPrefix parse rawURL =
     (case parse rawURL of None \<Rightarrow> rawURL | Some u \<Rightarrow> Scheme u @ ''://'' @ Host u)"

definition NewScraper ::
  "(string \<Rightarrow> url_URL option) \<Rightarrow> string \<Rightarrow> string \<Rightarrow> Organization \<Rightarrow> bool \<Rightarrow> Scraper" where
  "NewScraper parse baseURL' outputPath' org singlePage' =
     \<lparr>baseURL = sanitizeURL parse baseURL',
      outputPath = outputPath',
      outputDir = TrimSuffix outputPath' (filepath_Ext outputPath'),
      visitedURLs = Map.empty,
      domainPrefix = extractDomainPrefix parse baseURL',
      organization = org,
      pages = [],
      singlePage = singlePage'\<rparr>"

subsection \<open>sanitizeFilename\<close>

definition invalid :: "string list" where
  "invalid = [''/'', [CHR 0x5C], ''?'', ''%'', ''*'', '':'', ''|'', [CHR 0x22],
              ''<'', ''>'', ''.'', '' '']"

definition sanitizeFilename :: "(nat \<Rightarrow> nat) \<Rightarrow> string \<Rightarrow> string" where
  "sanitizeFilename tbl name =
     (let result = ToLower tbl name;
          result = foldl (\<lambda>result char. ReplaceAll result char ''_'') result invalid;
          result = (if length result = 0 then ''unnamed'' else result);
          result = (if length result > 100 then take 100 result else result)
      in result)"

subsection \<open>resolveURL and shouldProcessURL\<close>

definition resolveURL :: "(string \<Rightarrow> url_URL option) \<Rightarrow> Scraper \<Rightarrow> string \<Rightarrow> string" where
  "resolveURL parse s href =
     (if HasPrefix href ''http'' then href
      else if HasPrefix href ''//''
        then (case parse (baseURL s) of None \<Rightarrow> [] | Some u \<Rightarrow> Scheme u @ '':'' @ href)
      else if HasPrefix href ''/'' then domainPrefix s @ href
      else baseURL s @ ''/'' @ href)"

definition ignorePaths :: "string list" where
  "ignorePaths = [''/assets/'', ''/static/'', ''/img/'', ''/images/'',
                  ''/js/'', ''/css/'', ''/fonts/'', ''/examples/'',
                  ''/blog/'', ''/community/'', ''/download/'']"

definition shouldProcessURL :: "(string \<Rightarrow> url_URL option) \<Rightarrow> Scraper \<Rightarrow> string \<Rightarrow> bool" where
  "shouldProcessURL parse s urlStr =
     (case parse (baseURL s) of
        None \<Rightarrow> False
      | Some baseURL' \<Rightarrow>
          (case parse urlStr of
             None \<Rightarrow> False
           | Some checkURL \<Rightarrow>
               if Host checkURL \<noteq> Host baseURL' then False
               else if map_get (visitedURLs s) urlStr then False
               else let relPath = TrimPrefix (Path checkURL) (Path baseURL')
                    in if list_ex (\<lambda>ignore. Contains relPath ignore) ignorePaths
                       then False else True))"


subsection \<open>scrapePage\<close>

text \<open>
  The document library (goquery) is outside the program. A fetched document is given
  by what \<^verbatim>\<open>scrapePage\<close> selects from it: the text of the first \<^verbatim>\<open>h1\<close> of the main
  content, if there is one, and the elements matched by
  \<^verbatim>\<open>h2, h3, h4, h5, h6, p, pre, ul, ol, code, blockquote\<close> in document order. A heading
  carries the digit of its tag and its text; a \<^verbatim>\<open>pre\<close> carries the class attribute (if
  it exists) and the text of its embedded \<^verbatim>\<open>code\<close> selection, or nothing when it
  embeds none; a list carries the texts of its \<^verbatim>\<open>li\<close> descendants.
\<close>

datatype element =
    Heading nat string
  | Paragraph string
  | Pre "(string option \<times> string) option"
  | ListElem "string list"
  | CodeElem
  | Blockquote string

record document =
  h1 :: "string option"
  elements :: "element list"

text \<open>
  The world around the program: the parameters of the library functions that are not
  modelled above, the network and the file system. The network and the file system
  may answer differently at different times: they take the number of the loop iteration
  that asks (0 in single-page mode, the number of completed iterations for the final
  write). \<open>http_document\<close> is the request and parse of \<^verbatim>\<open>scrapePage\<close>,
  \<open>http_hrefs\<close> the request and parse of \<^verbatim>\<open>getAllDocLinks\<close> with the \<^verbatim>\<open>href\<close>
  attributes of the \<^verbatim>\<open>a[href]\<close> elements in document order, \<open>os_write\<close> the
  \<^verbatim>\<open>MkdirAll\<close> and \<^verbatim>\<open>WriteFile\<close> of \<^verbatim>\<open>writeContentToFile\<close> (\<open>None\<close>: no error).
\<close>

record world =
  case_table :: "nat \<Rightarrow> nat"
  url_Parse :: "string \<Rightarrow> url_URL option"
  TrimSpace :: "string \<Rightarrow> string"
  filepath_Join :: "string \<Rightarrow> string \<Rightarrow> string"
  http_document :: "nat \<Rightarrow> string \<Rightarrow> error + document"
  http_hrefs :: "nat \<Rightarrow> string \<Rightarrow> error + string list"
  os_write :: "nat \<Rightarrow> string \<Rightarrow> string \<Rightarrow> error option"

definition langClasses :: "string list" where
  "langClasses = [''language-'', ''lang-'', ''brush:'']"

text \<open>
  The loop over \<^verbatim>\<open>langClasses\<close> with its \<^verbatim>\<open>break\<close>. \<^verbatim>\<open>Split\<close> never returns an
  empty slice, so the index \<^verbatim>\<open>[0]\<close> cannot fail.
\<close>

fun detectLang_loop :: "string \<Rightarrow> string list \<Rightarrow> string" where
  "detectLang_loop className [] = []"
| "detectLang_loop className (pre # rest) =
     (if Contains className pre
      then (let parts = Split className pre
            in if length parts > 1
               then (case Split (parts ! 1) '' '' of [] \<Rightarrow> [] | lang # _ \<Rightarrow> lang)
               else detectLang_loop className rest)
      else detectLang_loop className rest)"

definition detectLang :: "string option \<Rightarrow> string" where
  "detectLang cls =
     (case cls of None \<Rightarrow> [] | Some className \<Rightarrow> detectLang_loop className langClasses)"

fun renderElement :: "(string \<Rightarrow> string) \<Rightarrow> element \<Rightarrow> string" where
  "renderElement trim (Heading level text) =
     (let text = trim text
      in if text \<noteq> [] then replicate level CHR ''#'' @ '' '' @ text @ ''\<newline>\<newline>'' else [])"
| "renderElement trim (Paragraph text) =
     (let text = trim text in if text \<noteq> [] then text @ ''\<newline>\<newline>'' else [])"
| "renderElement trim (Pre None) = []"
| "renderElement trim (Pre (Some (cls, codeText))) =
     (let lang = detectLang cls;
          code = trim codeText
      in if code \<noteq> []
         then (if lang \<noteq> []
               then ''```'' @ lang @ ''\<newline>'' @ code @ ''\<newline>```\<newline>\<newline>''
               else ''```\<newline>'' @ code @ ''\<newline>```\<newline>\<newline>'')
         else [])"
| "renderElement trim (ListElem items) =
     concat (map (\<lambda>li. let text = trim li
                        in if text \<noteq> [] then ''- '' @ text @ ''\<newline>'' else []) items)
       @ ''\<newline>''"
| "renderElement trim CodeElem = []"
| "renderElement trim (Blockquote text) =
     (let text = trim text
      in if text \<noteq> []
         then concat (map (\<lambda>line. ''> '' @ trim line @ ''\<newline>'') (Split text ''\<newline>''))
                @ ''\<newline>''
         else [])"

text \<open>The level and the file name of a page, as \<^verbatim>\<open>scrapePage\<close> computes them.\<close>

definition pageLevel :: "string \<Rightarrow> string \<Rightarrow> int" where
  "pageLevel base url =
     (let urlPath = Trim (TrimPrefix url base) ''/''
      in int (length (Split urlPath ''/'')))"

definition pageFilename :: "(nat \<Rightarrow> nat) \<Rightarrow> string \<Rightarrow> string \<Rightarrow> string" where
  "pageFilename tbl title url =
     (let filename = sanitizeFilename tbl title;
          filename = (if filename = [] then sanitizeFilename tbl (filepath_Base url) else filename)
      in filename @ ''.md'')"

definition scrapePage :: "world \<Rightarrow> Scraper \<Rightarrow> nat \<Rightarrow> string \<Rightarrow> error + Page" where
  "scrapePage w s t url =
     (case http_document w t url of
        Inl err \<Rightarrow> Inl err
      | Inr doc \<Rightarrow>
          let content = ''\<newline>## Source: '' @ url @ ''\<newline>\<newline>'';
              title = (case h1 doc of None \<Rightarrow> [] | Some text \<Rightarrow> TrimSpace w text);
              content = (case h1 doc of
                           None \<Rightarrow> content
                         | Some text \<Rightarrow> content @ ''# '' @ title @ ''\<newline>\<newline>'');
              level = pageLevel (baseURL s) url;
              content = content @ concat (map (renderElement (TrimSpace w)) (elements doc));
              content = content @ ''---\<newline>\<newline>''
          in Inr \<lparr>Title = title, Content = content, URL = url,
                  Filename = pageFilename (case_table w) title url, Level = level\<rparr>)"

subsection \<open>getAllDocLinks, writeContentToFile and createIndex\<close>

definition getAllDocLinks :: "world \<Rightarrow> Scraper \<Rightarrow> nat \<Rightarrow> string \<Rightarrow> error + string list" where
  "getAllDocLinks w s t currentURL =
     (case http_hrefs w t currentURL of
        Inl err \<Rightarrow> Inl err
      | Inr hrefs \<Rightarrow>
          Inr (filter (\<lambda>fullURL. fullURL \<noteq> [] \<and> shouldProcessURL (url_Parse w) s fullURL)
                 (map (resolveURL (url_Parse w) s) hrefs)))"

text \<open>
  The file system is the list of the files written so far, oldest first, as pairs of
  path and content. \<^verbatim>\<open>writeContentToFile\<close> returns the new list and the error.
\<close>

type_synonym files = "(string \<times> string) list"

definition writeContentToFile ::
  "world \<Rightarrow> nat \<Rightarrow> files \<Rightarrow> string \<Rightarrow> string \<Rightarrow> files \<times> error option" where
  "writeContentToFile w t fs filepath content =
     (case os_write w t filepath content of
        None \<Rightarrow> (fs @ [(filepath, content)], None)
      | Some err \<Rightarrow> (fs, Some err))"

definition corpusTitle :: "Scraper \<Rightarrow> string" where
  "corpusTitle s = TrimPrefix (TrimPrefix (baseURL s) ''https://'') ''http://''"

definition indexContent :: "Scraper \<Rightarrow> string" where
  "indexContent s =
     ''# Documentation: '' @ corpusTitle s @ ''\<newline>\<newline>''
       @ ''## Table of Contents\<newline>\<newline>''
       @ concat (map (\<lambda>page.
           concat (replicate (nat (Level page - 1)) ''  '')
             @ ''- ['' @ Title page @ '']('' @ Filename page @ '') - [source]('' @ URL page
             @ '')\<newline>'') (pages s))"

definition createIndex :: "world \<Rightarrow> nat \<Rightarrow> files \<Rightarrow> Scraper \<Rightarrow> files \<times> error option" where
  "createIndex w t fs s =
     writeContentToFile w t fs (filepath_Join w (outputDir s) ''index.md'') (indexContent s)"


subsection \<open>Scrape\<close>

text \<open>
  The state of the crawl loop of \<^verbatim>\<open>Scrape\<close>: the scraper (the loop appends to its
  \<^verbatim>\<open>pages\<close>), the local variables \<^verbatim>\<open>links\<close>, \<^verbatim>\<open>processed\<close> and \<^verbatim>\<open>mainContent\<close>,
  the files written and the number of iterations done. The last four fields are history
  only, kept to state properties of a whole run; the program does not have them:
  every URL appended to \<^verbatim>\<open>links\<close> (the seed included), every URL taken from the front
  of \<^verbatim>\<open>links\<close>, every URL \<^verbatim>\<open>scrapePage\<close> was called with, and every URL for which
  that call returned an error, each in order.
\<close>

record crawl =
  scraper :: Scraper
  links :: "string list"
  processed :: "string \<rightharpoonup> bool"
  mainContent :: string
  written :: files
  tick :: nat
  enqueued :: "string list"
  dequeued :: "string list"
  fetched :: "string list"
  failed :: "string list"

definition crawl_init :: "Scraper \<Rightarrow> crawl" where
  "crawl_init s =
     \<lparr>scraper = s, links = [baseURL s], processed = Map.empty, mainContent = [],
      written = [], tick = 0,
      enqueued = [baseURL s], dequeued = [], fetched = [], failed = []\<rparr>"

text \<open>
  One iteration of \<^verbatim>\<open>for len(links) > 0\<close>. An error of \<^verbatim>\<open>writeContentToFile\<close> in
  the loop is only logged. The delay at the end of the body changes nothing in the state.
\<close>

definition crawl_step :: "world \<Rightarrow> crawl \<Rightarrow> crawl" where
  "crawl_step w st =
     (case links st of
        [] \<Rightarrow> st
      | currentURL # rest \<Rightarrow>
          let t = tick st;
              s = scraper st;
              st = st\<lparr>links := rest, tick := Suc t, dequeued := dequeued st @ [currentURL]\<rparr>
          in if map_get (processed st) currentURL then st
             else (case scrapePage w s t currentURL of
                Inl err \<Rightarrow>
                  st\<lparr>fetched := fetched st @ [currentURL], failed := failed st @ [currentURL]\<rparr>
              | Inr page \<Rightarrow>
                  let st = st\<lparr>fetched := fetched st @ [currentURL]\<rparr>;
                      st = (case organization s of
                              SingleFile \<Rightarrow> st\<lparr>mainContent := mainContent st @ Content page\<rparr>
                            | _ \<Rightarrow>
                                st\<lparr>written :=
                                     fst (writeContentToFile w t (written st)
                                            (filepath_Join w (outputDir s) (Filename page))
                                            (Content page))\<rparr>);
                      s = s\<lparr>pages := pages s @ [page]\<rparr>;
                      st = st\<lparr>scraper := s, processed := (processed st)(currentURL \<mapsto> True)\<rparr>
                  in (case getAllDocLinks w s t currentURL of
                        Inl err \<Rightarrow> st
                      | Inr newLinks \<Rightarrow>
                          let new = filter (\<lambda>link. \<not> map_get (processed st) link) newLinks
                          in st\<lparr>links := links st @ new, enqueued := enqueued st @ new\<rparr>)))"

text \<open>
  The loop may run for ever (a site can link to ever new pages), so it takes fuel:
  \<open>None\<close> when the queue is not empty after \<open>fuel\<close> iterations.
\<close>

fun crawl_loop :: "world \<Rightarrow> nat \<Rightarrow> crawl \<Rightarrow> crawl option" where
  "crawl_loop w 0 st = (if links st = [] then Some st else None)"
| "crawl_loop w (Suc fuel) st =
     (if links st = [] then Some st else crawl_loop w fuel (crawl_step w st))"

text \<open>
  \<^verbatim>\<open>Scrape\<close> returns the files written and its error, given enough fuel.
\<close>

definition Scrape :: "world \<Rightarrow> nat \<Rightarrow> Scraper \<Rightarrow> (files \<times> error option) option" where
  "Scrape w fuel s =
     (if singlePage s
      then (case scrapePage w s 0 (baseURL s) of
              Inl err \<Rightarrow> Some ([], Some (''error scraping page '' @ baseURL s @ '': '' @ err))
            | Inr page \<Rightarrow>
                if organization s = SingleFile
                then Some (writeContentToFile w 0 [] (outputPath s) (Content page))
                else Some (writeContentToFile w 0 []
                             (filepath_Join w (outputDir s) (Filename page)) (Content page)))
      else (case crawl_loop w fuel (crawl_init s) of
              None \<Rightarrow> None
            | Some st \<Rightarrow>
                if organization (scraper st) = SingleFile
                then Some (writeContentToFile w (tick st) (written st) (outputPath (scraper st))
                             (''# Documentation: '' @ corpusTitle (scraper st)
                                @ ''\<newline>\<newline>'' @ mainContent st))
                else Some (createIndex w (tick st) (written st) (scraper st))))"


section \<open>Auxiliary definitions\<close>

text \<open>What the twelve replacements of \<^verbatim>\<open>sanitizeFilename\<close> do to one byte.\<close>

definition safeChar :: "char \<Rightarrow> char" where
  "safeChar c = (if [c] \<in> set invalid then CHR ''_'' else c)"








text \<open>The state of the loop after \<open>n\<close> iterations (an iteration on an empty queue does nothing).\<close>

definition crawl_run :: "world \<Rightarrow> nat \<Rightarrow> Scraper \<Rightarrow> crawl" where
  "crawl_run w n s = (crawl_step w ^^ n) (crawl_init s)"

text \<open>The links that an iteration appends to the queue after it has scraped \<open>page\<close> from \<open>u\<close>.\<close>

definition newLinks :: "world \<Rightarrow> crawl \<Rightarrow> string \<Rightarrow> Page \<Rightarrow> string list" where
  "newLinks w st u page =
     (case getAllDocLinks w ((scraper st)\<lparr>pages := pages (scraper st) @ [page]\<rparr>) (tick st) u of
        Inl err \<Rightarrow> []
      | Inr found \<Rightarrow> filter (\<lambda>link. \<not> map_get ((processed st)(u \<mapsto> True)) link) found)"

text \<open>The invariant of the loop, for a scraper that starts without pages.\<close>

definition crawl_inv :: "Scraper \<Rightarrow> crawl \<Rightarrow> bool" where
  "crawl_inv s st \<longleftrightarrow>
     enqueued st = dequeued st @ links st \<and>
     {u. map_get (processed st) u} = set (map URL (pages (scraper st))) \<and>
     distinct (map URL (pages (scraper st))) \<and>
     set (dequeued st) = {u. map_get (processed st) u} \<union> set (failed st) \<and>
     subseq (fetched st) (dequeued st) \<and>
     set (failed st) \<subseteq> set (fetched st) \<and>
     tick st = length (dequeued st) \<and>
     (scraper st)\<lparr>pages := []\<rparr> = s"

section \<open>Example values\<close>

text \<open>
  The rows of the case table \<^verbatim>\<open>unicode.CaseRanges\<close> that lower-case a rune from
  U+0080 to U+00FF (the letters U+00C0 to U+00DE but the multiplication sign), as an
  instance of the table parameter; runes it does not list are left as they are, as the
  table leaves U+00E9 and U+FFFD.
\<close>

definition latin1_lower :: "nat \<Rightarrow> nat" where
  "latin1_lower r =
     (if (0xC0 \<le> r \<and> r \<le> 0xD6) \<or> (0xD8 \<le> r \<and> r \<le> 0xDE) then r + 0x20 else r)"

text \<open>
  The results of \<^verbatim>\<open>url.Parse\<close> on the URLs of the examples. It returns an error for
  \<^verbatim>\<open>https://example.com/docs/100%zz\<close> (an invalid escape); no example asks it about
  any other string, and it is given as failing on those too.
\<close>

definition example_Parse :: "string \<Rightarrow> url_URL option" where
  "example_Parse rawURL =
     (if rawURL = ''https://example.com/docs''
        then Some \<lparr>Scheme = ''https'', Host = ''example.com'', Path = ''/docs'',
                   url_String = ''https://example.com/docs''\<rparr>
      else if rawURL = ''https://example.com/docs/intro''
        then Some \<lparr>Scheme = ''https'', Host = ''example.com'', Path = ''/docs/intro'',
                   url_String = ''https://example.com/docs/intro''\<rparr>
      else if rawURL = ''https://example.com/docs/guide/install''
        then Some \<lparr>Scheme = ''https'', Host = ''example.com'', Path = ''/docs/guide/install'',
                   url_String = ''https://example.com/docs/guide/install''\<rparr>
      else if rawURL = ''https://example.com/blog/post''
        then Some \<lparr>Scheme = ''https'', Host = ''example.com'', Path = ''/blog/post'',
                   url_String = ''https://example.com/blog/post''\<rparr>
      else if rawURL = ''https://other.org/docs/intro''
        then Some \<lparr>Scheme = ''https'', Host = ''other.org'', Path = ''/docs/intro'',
                   url_String = ''https://other.org/docs/intro''\<rparr>
      else None)"

text \<open>\<^verbatim>\<open>strings.TrimSpace\<close> on ASCII strings: the six ASCII white space bytes.\<close>

definition ascii_TrimSpace :: "string \<Rightarrow> string" where
  "ascii_TrimSpace s = Trim s [CHR 0x09, CHR 0x0A, CHR 0x0B, CHR 0x0C, CHR 0x0D, CHR 0x20]"

text \<open>
  A site whose every URL answers with the same document, and whose seed page links to
  one page twice (by a relative and by a root-relative reference), to a blog post and
  to another host. The file system accepts every write, and \<^verbatim>\<open>filepath.Join\<close> is
  given on two clean elements.
\<close>

definition example_document :: document where
  "example_document =
     \<lparr>h1 = Some '' Guide '',
      elements = [Paragraph ''Text.'', Pre (Some (Some ''language-python foo'', ''print(1)''))]\<rparr>"

definition example_world :: world where
  "example_world =
     \<lparr>case_table = latin1_lower,
      url_Parse = example_Parse,
      TrimSpace = ascii_TrimSpace,
      filepath_Join = (\<lambda>dir name. dir @ ''/'' @ name),
      http_document = (\<lambda>t url. Inr example_document),
      http_hrefs = (\<lambda>t url. if url = ''https://example.com/docs''
                     then Inr [''intro'', ''/docs/intro'', ''/blog/post'',
                               ''https://other.org/docs/intro'']
                     else Inr []),
      os_write = (\<lambda>t path content. None)\<rparr>"

definition example_scraper :: "Organization \<Rightarrow> bool \<Rightarrow> Scraper" where
  "example_scraper org single =
     NewScraper example_Parse ''https://example.com/docs'' ''out/docs.md'' org single"

text \<open>The same site when no request is answered.\<close>

definition offline_world :: world where
  "offline_world = example_world\<lparr>http_document := (\<lambda>t url. Inl ''timeout'')\<rparr>"

text \<open>
  The example site when every request for a page other than the seed page times out, and
  the state of its crawl after the first iteration.
\<close>

definition flaky_world :: world where
  "flaky_world =
     example_world\<lparr>http_document :=
       (\<lambda>t url. if url = ''https://example.com/docs'' then Inr example_document
                 else Inl ''timeout'')\<rparr>"

definition flaky_state :: crawl where
  "flaky_state = crawl_run flaky_world 1 (example_scraper ByPages False)"

text \<open>
  The example site when its seed page links to \<^verbatim>\<open>a//b\<close> (a relative reference with
  an empty segment) and to \<^verbatim>\<open>/api/auth\<close> (a page of the same host outside the seed
  path), with the results of \<^verbatim>\<open>url.Parse\<close> on the three URLs.
\<close>

definition linked_Parse :: "string \<Rightarrow> url_URL option" where
  "linked_Parse rawURL =
     (if rawURL = ''https://example.com/docs''
        then Some \<lparr>Scheme = ''https'', Host = ''example.com'', Path = ''/docs'',
                   url_String = ''https://example.com/docs''\<rparr>
      else if rawURL = ''https://example.com/docs/a//b''
        then Some \<lparr>Scheme = ''https'', Host = ''example.com'', Path = ''/docs/a//b'',
                   url_String = ''https://example.com/docs/a//b''\<rparr>
      else if rawURL = ''https://example.com/api/auth''
        then Some \<lparr>Scheme = ''https'', Host = ''example.com'', Path = ''/api/auth'',
                   url_String = ''https://example.com/api/auth''\<rparr>
      else None)"

definition linked_world :: world where
  "linked_world =
     example_world\<lparr>url_Parse := linked_Parse,
       http_hrefs := (\<lambda>t url. if url = ''https://example.com/docs''
                       then Inr [''a//b'', ''/api/auth''] else Inr [])\<rparr>"

definition linked_scraper :: Scraper where
  "linked_scraper = NewScraper linked_Parse ''https://example.com/docs'' ''out/docs.md'' ByPages False"

section \<open>The specification's words\<close>

text \<open>
  Following the specification's words for the first rule of \<^verbatim>\<open>resolve\<close> (``href
  already carries a scheme''), not the code: the reference starts with a URI scheme, a
  letter followed by letters, digits, \<^verbatim>\<open>+\<close>, \<^verbatim>\<open>-\<close> or \<^verbatim>\<open>.\<close>, and a colon.
\<close>

definition isLetter :: "char \<Rightarrow> bool" where
  "isLetter c = ((0x41 \<le> byte c \<and> byte c \<le> 0x5A) \<or> (0x61 \<le> byte c \<and> byte c \<le> 0x7A))"

definition isDigit :: "char \<Rightarrow> bool" where
  "isDigit c = (0x30 \<le> byte c \<and> byte c \<le> 0x39)"

definition spec_has_scheme :: "string \<Rightarrow> bool" where
  "spec_has_scheme href =
     (let scheme = takeWhile (\<lambda>c. c \<noteq> CHR '':'') href
      in length scheme < length href \<and> scheme \<noteq> [] \<and> isLetter (hd scheme) \<and>
         list_all (\<lambda>c. isLetter c \<or> isDigit c \<or> c \<in> set ''+-.'') scheme)"

text \<open>
  Following the specification's words for the language tag of a code block (``the
  substring following the first matching prefix up to the next whitespace''), not the
  code: white space is any of the six ASCII white space bytes.
\<close>

definition isSpace :: "char \<Rightarrow> bool" where
  "isSpace c = (c \<in> set [CHR 0x09, CHR 0x0A, CHR 0x0B, CHR 0x0C, CHR 0x0D, CHR 0x20])"

definition spec_language_tag :: "string \<Rightarrow> string \<Rightarrow> string" where
  "spec_language_tag className pre =
     (case Index className pre of
        None \<Rightarrow> []
      | Some i \<Rightarrow> takeWhile (\<lambda>c. \<not> isSpace c) (drop (i + length pre) className))"

text \<open>
  Following the specification's words for the depth level of a page (``count of
  non-empty path segments in the URL once the seed URL prefix is stripped and the result
  is trimmed of leading/trailing separators; minimum 1''), not the code: the segments are
  the pieces between the separators, and the empty ones are not counted.
\<close>

definition spec_level :: "string \<Rightarrow> string \<Rightarrow> int" where
  "spec_level base url =
     (let segments = filter (\<lambda>seg. seg \<noteq> []) (Split (Trim (TrimPrefix url base) ''/'') ''/'')
      in int (max 1 (length segments)))"

section \<open>Properties of the string functions\<close>

lemma HasPrefix_iff_prefix: "HasPrefix s p \<longleftrightarrow> prefix p s"
proof
  assume "HasPrefix s p"
  then have "s = p @ drop (length p) s"
    by (metis HasPrefix_def append_take_drop_id)
  then show "prefix p s" by (metis prefixI)
next
  assume "prefix p s"
  then obtain r where "s = p @ r" by (auto simp: prefix_def)
  then show "HasPrefix s p" by (simp add: HasPrefix_def)
qed

lemma HasPrefix_append [simp]: "HasPrefix (p @ r) p"
  by (simp add: HasPrefix_def)

lemma TrimPrefix_append [simp]: "TrimPrefix (p @ r) p = r"
  by (simp add: TrimPrefix_def)

lemma Index_None_iff: "Index s sub = None \<longleftrightarrow> \<not> sublist sub s"
  by (induction s) (auto simp: HasPrefix_iff_prefix sublist_Cons_right)

lemma Contains_iff_sublist: "Contains s sub \<longleftrightarrow> sublist sub s"
  by (simp add: Contains_def Index_None_iff)

lemma Split_Nil: "Split [] [c] = [[]]"
  by (simp add: Split.simps [of "[]"])

lemma Split_Cons:
  "Split (x # xs) [c] =
     (if x = c then [] # Split xs [c]
      else (case Split xs [c] of [] \<Rightarrow> [] | h # t \<Rightarrow> (x # h) # t))"
proof (cases "x = c")
  case True
  then show ?thesis by (simp add: Split.simps [of "c # xs"] HasPrefix_def)
next
  case False
  then show ?thesis
    by (simp add: Split.simps [of "x # xs"] Split.simps [of xs] HasPrefix_def split: option.splits)
qed

lemma Split_nonempty: "Split s sep \<noteq> []"
  by (subst Split.simps) (simp split: option.splits)





section \<open>Properties of sanitizeFilename\<close>

lemma Replace_loop_single:
  "Replace_loop s [c] [d] = map (\<lambda>x. if x = c then d else x) s"
proof (induction s)
  case Nil
  show ?case by (simp add: Replace_loop.simps [of "[]"])
next
  case (Cons x xs)
  show ?case
  proof (cases "x = c")
    case True
    then show ?thesis
      using Cons.IH by (simp add: Replace_loop.simps [of "c # xs"] HasPrefix_def)
  next
    case False
    then show ?thesis
      using Cons.IH
      by (simp add: Replace_loop.simps [of "x # xs"] Replace_loop.simps [of xs] HasPrefix_def
               split: option.splits)
  qed
qed

lemma ReplaceAll_single:
  "ReplaceAll s [c] [d] = map (\<lambda>x. if x = c then d else x) s"
  by (cases "c = d") (simp_all add: ReplaceAll_def Replace_loop_single map_idI)

lemma replace_invalid:
  "foldl (\<lambda>result char. ReplaceAll result char ''_'') s invalid = map safeChar s"
  by (simp add: invalid_def ReplaceAll_single safeChar_def)

lemma sanitizeFilename_eq:
  "sanitizeFilename tbl name =
     (if ToLower tbl name = [] then ''unnamed'' else take 100 (map safeChar (ToLower tbl name)))"
  by (simp add: sanitizeFilename_def replace_invalid Let_def)












lemma sanitizeFilename_empty: "sanitizeFilename tbl [] = ''unnamed''"
  by (simp add: sanitizeFilename_eq ToLower_def isASCII_def)














subsection \<open>The UTF-8 coding\<close>






























































subsection \<open>Lower case, replacement and cut on runes\<close>




















































subsection \<open>The claim\<close>





section \<open>Properties of scrapePage\<close>

lemma scrapePage_Inr:
  assumes "scrapePage w s t url = Inr page"
  shows "URL page = url" and "Level page = pageLevel (baseURL s) url"
    and "Filename page = pageFilename (case_table w) (Title page) url"
  using assms by (auto simp: scrapePage_def Let_def split: sum.splits)

lemma scrapePage_ok:
  assumes "http_document w t url = Inr doc"
  shows "\<exists>page. scrapePage w s t url = Inr page"
  using assms by (simp add: scrapePage_def Let_def)

lemma scrapePage_Inl:
  "scrapePage w s t url = Inl err \<longleftrightarrow> http_document w t url = Inl err"
  by (simp add: scrapePage_def Let_def split: sum.splits)












lemma example_scraper_fields:
  "baseURL (example_scraper org single) = ''https://example.com/docs''"
  "outputPath (example_scraper org single) = ''out/docs.md''"
  "outputDir (example_scraper org single) = ''out/docs''"
  "visitedURLs (example_scraper org single) = Map.empty"
  "domainPrefix (example_scraper org single) = ''https://example.com''"
  "organization (example_scraper org single) = org"
  "pages (example_scraper org single) = []"
  "singlePage (example_scraper org single) = single"
  by (simp_all add: example_scraper_def NewScraper_def sanitizeURL_def extractDomainPrefix_def
        example_Parse_def TrimSuffix_def filepath_Ext_def)

lemma linked_scraper_fields:
  "baseURL linked_scraper = ''https://example.com/docs''"
  "domainPrefix linked_scraper = ''https://example.com''"
  "visitedURLs linked_scraper = Map.empty"
  by (simp_all add: linked_scraper_def NewScraper_def sanitizeURL_def extractDomainPrefix_def
        linked_Parse_def)

lemma linked_world_fields:
  "url_Parse linked_world = linked_Parse"
  "http_hrefs linked_world t ''https://example.com/docs'' = Inr [''a//b'', ''/api/auth'']"
  "http_document linked_world t url = Inr example_document"
  by (simp_all add: linked_world_def example_world_def)


text \<open>
  Claim C8 as stated fails for two pages that the crawl fetches. The seed page
  \<^verbatim>\<open>https://example.com/docs\<close> links to \<^verbatim>\<open>a//b\<close> and to \<^verbatim>\<open>/api/auth\<close>; both
  links are accepted. The level of \<^verbatim>\<open>https://example.com/docs/a//b\<close> is 3, with two
  non-empty segments after the seed URL. The level of \<^verbatim>\<open>https://example.com/api/auth\<close>
  is 5: the seed URL is not a prefix of it, and the whole URL is cut. By the
  specification's words it has four non-empty pieces when they are read on the URL
  strings, and two path segments when they are read on the paths \<^verbatim>\<open>/docs\<close> and
  \<^verbatim>\<open>/api/auth\<close>.
\<close>

theorem scrapePage_level_not_segments:
  "getAllDocLinks linked_world linked_scraper 0 ''https://example.com/docs''
     = Inr [''https://example.com/docs/a//b'', ''https://example.com/api/auth''] \<and>
   (\<exists>page. scrapePage linked_world linked_scraper 1 ''https://example.com/docs/a//b'' = Inr page \<and>
      Level page = 3) \<and>
   spec_level ''https://example.com/docs'' ''https://example.com/docs/a//b'' = 2 \<and>
   spec_level ''/docs'' ''/docs/a//b'' = 2 \<and>
   (\<exists>page. scrapePage linked_world linked_scraper 2 ''https://example.com/api/auth'' = Inr page \<and>
      Level page = 5) \<and>
   spec_level ''https://example.com/docs'' ''https://example.com/api/auth'' = 4 \<and>
   spec_level ''/docs'' ''/api/auth'' = 2"
proof (intro conjI)
  let ?s = linked_scraper
  have r: "resolveURL linked_Parse ?s ''a//b'' = ''https://example.com/docs/a//b''"
    "resolveURL linked_Parse ?s ''/api/auth'' = ''https://example.com/api/auth''"
    by (simp_all add: resolveURL_def HasPrefix_def linked_scraper_fields)
  have 1: "shouldProcessURL linked_Parse ?s ''https://example.com/docs/a//b''"
    by (simp add: shouldProcessURL_def linked_scraper_fields linked_Parse_def map_get_def
          TrimPrefix_def HasPrefix_def ignorePaths_def Contains_def)
  have 2: "shouldProcessURL linked_Parse ?s ''https://example.com/api/auth''"
    by (simp add: shouldProcessURL_def linked_scraper_fields linked_Parse_def map_get_def
          TrimPrefix_def HasPrefix_def ignorePaths_def Contains_def)
  show "getAllDocLinks linked_world ?s 0 ''https://example.com/docs''
          = Inr [''https://example.com/docs/a//b'', ''https://example.com/api/auth'']"
    by (simp add: getAllDocLinks_def linked_world_fields r 1 2)
  have l1: "pageLevel ''https://example.com/docs'' ''https://example.com/docs/a//b'' = 3"
    by (simp add: pageLevel_def TrimPrefix_def HasPrefix_def Trim_def Split_Cons Split_Nil)
  have l2: "pageLevel ''https://example.com/docs'' ''https://example.com/api/auth'' = 5"
    by (simp add: pageLevel_def TrimPrefix_def HasPrefix_def Trim_def Split_Cons Split_Nil)
  obtain p1 where p1: "scrapePage linked_world ?s 1 ''https://example.com/docs/a//b'' = Inr p1"
    using scrapePage_ok [OF linked_world_fields(3)] by blast
  from scrapePage_Inr(2) [OF p1] have "Level p1 = 3" by (simp only: linked_scraper_fields l1)
  with p1 show "\<exists>page. scrapePage linked_world ?s 1 ''https://example.com/docs/a//b'' = Inr page \<and>
      Level page = 3" by blast
  obtain p2 where p2: "scrapePage linked_world ?s 2 ''https://example.com/api/auth'' = Inr p2"
    using scrapePage_ok [OF linked_world_fields(3)] by blast
  from scrapePage_Inr(2) [OF p2] have "Level p2 = 5" by (simp only: linked_scraper_fields l2)
  with p2 show "\<exists>page. scrapePage linked_world ?s 2 ''https://example.com/api/auth'' = Inr page \<and>
      Level page = 5" by blast
  show "spec_level ''https://example.com/docs'' ''https://example.com/docs/a//b'' = 2"
    by (simp add: spec_level_def TrimPrefix_def HasPrefix_def Trim_def Split_Cons Split_Nil)
  show "spec_level ''/docs'' ''/docs/a//b'' = 2"
    by (simp add: spec_level_def TrimPrefix_def HasPrefix_def Trim_def Split_Cons Split_Nil)
  show "spec_level ''https://example.com/docs'' ''https://example.com/api/auth'' = 4"
    by (simp add: spec_level_def TrimPrefix_def HasPrefix_def Trim_def Split_Cons Split_Nil)
  show "spec_level ''/docs'' ''/api/auth'' = 2"
    by (simp add: spec_level_def TrimPrefix_def HasPrefix_def Trim_def Split_Cons Split_Nil)
qed

text \<open>
  Claim C3. The code misses what the claim says for a page with an empty title. The
  fallback to the last path segment of the URL is guarded by \<^verbatim>\<open>filename == ""\<close>, and
  \<^verbatim>\<open>sanitizeFilename\<close> never returns the empty string: it has already put the
  placeholder in. So for every URL the file name of a page with an empty title is
  \<^verbatim>\<open>unnamed.md\<close>, where the claim derives \<^verbatim>\<open>intro.md\<close> from
  \<^verbatim>\<open>https://example.com/docs/intro\<close>.
\<close>

theorem pageFilename_empty_title:
  "pageFilename tbl [] url = ''unnamed.md'' \<and>
   sanitizeFilename tbl (filepath_Base ''https://example.com/docs/intro'') = ''intro''"
proof
  show "pageFilename tbl [] url = ''unnamed.md''"
    by (simp add: pageFilename_def sanitizeFilename_empty Let_def)
  have "filepath_Base ''https://example.com/docs/intro'' = ''intro''"
    by (simp add: filepath_Base_def)
  moreover have "isASCII ''intro''" by (simp add: isASCII_def byte_def)
  moreover have "map lowerByte ''intro'' = ''intro''" by (simp add: lowerByte_def byte_def)
  ultimately show "sanitizeFilename tbl (filepath_Base ''https://example.com/docs/intro'') = ''intro''"
    by (simp add: sanitizeFilename_eq ToLower_def safeChar_def invalid_def)
qed

section \<open>Properties of resolveURL and shouldProcessURL\<close>

lemma resolveURL_http: "resolveURL parse s (''http'' @ r) = ''http'' @ r"
  by (simp add: resolveURL_def HasPrefix_def)

lemma resolveURL_protocol_relative:
  "resolveURL parse s (''//'' @ r) =
     (case parse (baseURL s) of None \<Rightarrow> [] | Some u \<Rightarrow> Scheme u @ '':'' @ ''//'' @ r)"
  by (simp add: resolveURL_def HasPrefix_def split: option.splits)

lemma resolveURL_root_relative:
  "\<not> HasPrefix r ''/'' \<Longrightarrow> resolveURL parse s (''/'' @ r) = domainPrefix s @ ''/'' @ r"
  by (cases r) (auto simp: resolveURL_def HasPrefix_def)

lemma resolveURL_relative:
  "\<not> HasPrefix href ''http'' \<Longrightarrow> \<not> HasPrefix href ''/'' \<Longrightarrow>
     resolveURL parse s href = baseURL s @ ''/'' @ href"
  by (cases href) (auto simp: resolveURL_def HasPrefix_def)

lemma NewScraper_domainPrefix:
  "parse rawURL = Some u \<Longrightarrow>
     domainPrefix (NewScraper parse rawURL out org single) = Scheme u @ ''://'' @ Host u"
  by (simp add: NewScraper_def extractDomainPrefix_def)

text \<open>
  Claim C5, as amended. \<^verbatim>\<open>resolveURL\<close> returns a reference that starts with the four
  characters \<^verbatim>\<open>http\<close> unchanged; for a reference that starts with \<^verbatim>\<open>//\<close> it returns
  the scheme of the parsed base URL, a colon and the reference (the empty string when the
  base URL does not parse); for another reference that starts with \<^verbatim>\<open>/\<close> it returns
  the domain prefix followed by the reference; and for every other reference, one that
  carries a scheme other than \<^verbatim>\<open>http...\<close> included, it returns the base URL, one
  \<^verbatim>\<open>/\<close> and the reference. The domain prefix of a new scraper is
  \<^verbatim>\<open>scheme://host\<close> of the base URL it was given, when that parses.
\<close>

theorem resolveURL_rules:
  "resolveURL parse s (''http'' @ r) = ''http'' @ r \<and>
   resolveURL parse s (''//'' @ r) =
     (case parse (baseURL s) of None \<Rightarrow> [] | Some u \<Rightarrow> Scheme u @ '':'' @ ''//'' @ r) \<and>
   (\<not> HasPrefix r ''/'' \<longrightarrow> resolveURL parse s (''/'' @ r) = domainPrefix s @ ''/'' @ r) \<and>
   (\<not> HasPrefix href ''http'' \<and> \<not> HasPrefix href ''/'' \<longrightarrow>
      resolveURL parse s href = baseURL s @ ''/'' @ href) \<and>
   (\<forall>u. parse rawURL = Some u \<longrightarrow>
      domainPrefix (NewScraper parse rawURL out org single) = Scheme u @ ''://'' @ Host u)"
proof (intro conjI impI allI)
  show "resolveURL parse s (''http'' @ r) = ''http'' @ r" by (rule resolveURL_http)
  show "resolveURL parse s (''//'' @ r) =
     (case parse (baseURL s) of None \<Rightarrow> [] | Some u \<Rightarrow> Scheme u @ '':'' @ ''//'' @ r)"
    by (rule resolveURL_protocol_relative)
  show "resolveURL parse s (''/'' @ r) = domainPrefix s @ ''/'' @ r" if "\<not> HasPrefix r ''/''"
    using that by (rule resolveURL_root_relative)
  show "resolveURL parse s href = baseURL s @ ''/'' @ href"
    if "\<not> HasPrefix href ''http'' \<and> \<not> HasPrefix href ''/''"
    using that by (intro resolveURL_relative) simp_all
  show "domainPrefix (NewScraper parse rawURL out org single) = Scheme u @ ''://'' @ Host u"
    if "parse rawURL = Some u" for u
    using that by (rule NewScraper_domainPrefix)
qed

text \<open>
  The theorem at the example scraper: a root-relative and a relative reference, and the
  domain prefix.
\<close>

theorem resolveURL_rules_witness:
  "\<not> HasPrefix ''docs/intro'' ''/'' \<and>
   resolveURL example_Parse (example_scraper ByPages False) ''/docs/intro''
     = ''https://example.com/docs/intro'' \<and>
   \<not> HasPrefix ''intro'' ''http'' \<and> \<not> HasPrefix ''intro'' ''/'' \<and>
   resolveURL example_Parse (example_scraper ByPages False) ''intro''
     = ''https://example.com/docs/intro'' \<and>
   example_Parse ''https://example.com/docs'' =
     Some \<lparr>Scheme = ''https'', Host = ''example.com'', Path = ''/docs'',
            url_String = ''https://example.com/docs''\<rparr> \<and>
   domainPrefix (example_scraper ByPages False) = ''https://example.com''"
proof -
  let ?s = "example_scraper ByPages False"
  let ?u = "\<lparr>Scheme = ''https'', Host = ''example.com'', Path = ''/docs'',
             url_String = ''https://example.com/docs''\<rparr>"
  note rules = resolveURL_rules [of example_Parse ?s "''docs/intro''" "''intro''"
      "''https://example.com/docs''" "''out/docs.md''" ByPages False]
  have h1: "\<not> HasPrefix ''docs/intro'' ''/''" by (simp add: HasPrefix_def)
  have h2: "\<not> HasPrefix ''intro'' ''http'' \<and> \<not> HasPrefix ''intro'' ''/''"
    by (simp add: HasPrefix_def)
  have h3: "example_Parse ''https://example.com/docs'' = Some ?u"
    by (simp add: example_Parse_def)
  have "resolveURL example_Parse ?s (''/'' @ ''docs/intro'')
      = domainPrefix ?s @ ''/'' @ ''docs/intro''"
    by (rule rules [THEN conjunct2, THEN conjunct2, THEN conjunct1, THEN mp, OF h1])
  then have r1: "resolveURL example_Parse ?s ''/docs/intro'' = ''https://example.com/docs/intro''"
    by (simp add: example_scraper_fields)
  have "resolveURL example_Parse ?s ''intro'' = baseURL ?s @ ''/'' @ ''intro''"
    by (rule rules [THEN conjunct2, THEN conjunct2, THEN conjunct2, THEN conjunct1, THEN mp, OF h2])
  then have r2: "resolveURL example_Parse ?s ''intro'' = ''https://example.com/docs/intro''"
    by (simp add: example_scraper_fields)
  have "domainPrefix (NewScraper example_Parse ''https://example.com/docs''
      ''out/docs.md'' ByPages False) = Scheme ?u @ ''://'' @ Host ?u"
    by (rule rules [THEN conjunct2, THEN conjunct2, THEN conjunct2, THEN conjunct2,
          THEN spec, THEN mp, OF h3])
  then have r3: "domainPrefix ?s = ''https://example.com''"
    by (simp add: example_scraper_def)
  from h1 h2 h3 r1 r2 r3 show ?thesis by (intro conjI) simp_all
qed

text \<open>
  Claim C5 as stated fails for a reference that carries a scheme other than
  \<^verbatim>\<open>http\<close> or \<^verbatim>\<open>https\<close>: \<^verbatim>\<open>mailto:docs@example.com\<close> is not returned unchanged
  but joined to the base URL.
\<close>

theorem resolveURL_scheme_not_kept:
  "spec_has_scheme ''mailto:docs@example.com'' \<and>
   resolveURL example_Parse (example_scraper ByPages False) ''mailto:docs@example.com''
     = ''https://example.com/docs/mailto:docs@example.com''"
proof
  have "takeWhile (\<lambda>c. c \<noteq> CHR '':'') ''mailto:docs@example.com'' = ''mailto''" by simp
  then show "spec_has_scheme ''mailto:docs@example.com''"
    by (simp add: spec_has_scheme_def isLetter_def byte_def)
  have "\<not> HasPrefix ''mailto:docs@example.com'' ''http''"
    and "\<not> HasPrefix ''mailto:docs@example.com'' ''/''"
    by (simp_all add: HasPrefix_def)
  then show "resolveURL example_Parse (example_scraper ByPages False) ''mailto:docs@example.com''
     = ''https://example.com/docs/mailto:docs@example.com''"
    by (simp add: resolveURL_relative example_scraper_fields)
qed

lemma shouldProcessURL_unparsed:
  "parse (baseURL s) = None \<or> parse u = None \<Longrightarrow> \<not> shouldProcessURL parse s u"
  by (auto simp: shouldProcessURL_def split: option.splits)

lemma shouldProcessURL_parsed:
  assumes "parse (baseURL s) = Some b" and "parse u = Some c"
  shows "shouldProcessURL parse s u \<longleftrightarrow>
           Host c = Host b \<and> \<not> map_get (visitedURLs s) u \<and>
           \<not> (\<exists>ig \<in> set ignorePaths. sublist ig (TrimPrefix (Path c) (Path b)))"
  using assms
  by (auto simp: shouldProcessURL_def Let_def list_ex_iff Contains_iff_sublist)

text \<open>
  Claim C6, as amended. \<^verbatim>\<open>shouldProcessURL\<close> returns false when the URL or the base
  URL does not parse. When both parse, it returns true exactly when the hosts are equal,
  the URL is not marked in the visited set, and the path of the URL, with the base path
  stripped from its front, contains none of the denylisted infixes, of which
  \<^verbatim>\<open>/blog/\<close> is one.
\<close>

theorem shouldProcessURL_rules:
  "(parse (baseURL s) = None \<or> parse u = None \<longrightarrow> \<not> shouldProcessURL parse s u) \<and>
   (\<forall>b c. parse (baseURL s) = Some b \<and> parse u = Some c \<longrightarrow>
      (shouldProcessURL parse s u \<longleftrightarrow>
         Host c = Host b \<and> \<not> map_get (visitedURLs s) u \<and>
         \<not> (\<exists>ig \<in> set ignorePaths. sublist ig (TrimPrefix (Path c) (Path b))))) \<and>
   ''/blog/'' \<in> set ignorePaths"
proof (intro conjI allI impI)
  show "''/blog/'' \<in> set ignorePaths" by (simp add: ignorePaths_def)
  show "\<not> shouldProcessURL parse s u" if "parse (baseURL s) = None \<or> parse u = None"
    using that by (rule shouldProcessURL_unparsed)
  show "shouldProcessURL parse s u \<longleftrightarrow>
         Host c = Host b \<and> \<not> map_get (visitedURLs s) u \<and>
         \<not> (\<exists>ig \<in> set ignorePaths. sublist ig (TrimPrefix (Path c) (Path b)))"
    if "parse (baseURL s) = Some b \<and> parse u = Some c" for b c
    using that by (intro shouldProcessURL_parsed) simp_all
qed

lemma not_ignored_intro: "\<not> (\<exists>ig \<in> set ignorePaths. sublist ig ''/intro'')"
  by (simp add: ignorePaths_def Contains_iff_sublist [symmetric] Contains_def HasPrefix_def)

text \<open>
  The theorem at the example scraper: a documentation page is accepted, a blog post
  and a URL that does not parse are rejected.
\<close>

theorem shouldProcessURL_rules_witness:
  "example_Parse (baseURL (example_scraper ByPages False)) =
     Some \<lparr>Scheme = ''https'', Host = ''example.com'', Path = ''/docs'',
            url_String = ''https://example.com/docs''\<rparr> \<and>
   example_Parse ''https://example.com/docs/intro'' =
     Some \<lparr>Scheme = ''https'', Host = ''example.com'', Path = ''/docs/intro'',
            url_String = ''https://example.com/docs/intro''\<rparr> \<and>
   shouldProcessURL example_Parse (example_scraper ByPages False) ''https://example.com/docs/intro'' \<and>
   example_Parse ''https://example.com/blog/post'' =
     Some \<lparr>Scheme = ''https'', Host = ''example.com'', Path = ''/blog/post'',
            url_String = ''https://example.com/blog/post''\<rparr> \<and>
   \<not> shouldProcessURL example_Parse (example_scraper ByPages False) ''https://example.com/blog/post'' \<and>
   example_Parse ''https://example.com/docs/100%zz'' = None \<and>
   \<not> shouldProcessURL example_Parse (example_scraper ByPages False) ''https://example.com/docs/100%zz''"
proof -
  let ?s = "example_scraper ByPages False"
  let ?b = "\<lparr>Scheme = ''https'', Host = ''example.com'', Path = ''/docs'',
             url_String = ''https://example.com/docs''\<rparr>"
  let ?i = "\<lparr>Scheme = ''https'', Host = ''example.com'', Path = ''/docs/intro'',
             url_String = ''https://example.com/docs/intro''\<rparr>"
  let ?p = "\<lparr>Scheme = ''https'', Host = ''example.com'', Path = ''/blog/post'',
             url_String = ''https://example.com/blog/post''\<rparr>"
  have b: "example_Parse (baseURL ?s) = Some ?b"
    by (simp add: example_scraper_fields example_Parse_def)
  have i: "example_Parse ''https://example.com/docs/intro'' = Some ?i"
    by (simp add: example_Parse_def)
  have p: "example_Parse ''https://example.com/blog/post'' = Some ?p"
    by (simp add: example_Parse_def)
  have z: "example_Parse ''https://example.com/docs/100%zz'' = None"
    by (simp add: example_Parse_def)
  have v: "\<not> map_get (visitedURLs ?s) u" for u
    by (simp add: example_scraper_fields map_get_def)
  have "shouldProcessURL example_Parse ?s ''https://example.com/docs/intro'' \<longleftrightarrow>
          Host ?i = Host ?b \<and> \<not> map_get (visitedURLs ?s) ''https://example.com/docs/intro'' \<and>
          \<not> (\<exists>ig \<in> set ignorePaths. sublist ig (TrimPrefix (Path ?i) (Path ?b)))"
    using shouldProcessURL_rules [of example_Parse ?s "''https://example.com/docs/intro''",
        THEN conjunct2, THEN conjunct1, THEN spec, THEN spec, THEN mp, OF conjI, OF b i] .
  moreover have "TrimPrefix (Path ?i) (Path ?b) = ''/intro''"
    by (simp add: TrimPrefix_def HasPrefix_def)
  ultimately have 1: "shouldProcessURL example_Parse ?s ''https://example.com/docs/intro''"
    using v not_ignored_intro by simp
  have "shouldProcessURL example_Parse ?s ''https://example.com/blog/post'' \<longleftrightarrow>
          Host ?p = Host ?b \<and> \<not> map_get (visitedURLs ?s) ''https://example.com/blog/post'' \<and>
          \<not> (\<exists>ig \<in> set ignorePaths. sublist ig (TrimPrefix (Path ?p) (Path ?b)))"
    using shouldProcessURL_rules [of example_Parse ?s "''https://example.com/blog/post''",
        THEN conjunct2, THEN conjunct1, THEN spec, THEN spec, THEN mp, OF conjI, OF b p] .
  moreover have "TrimPrefix (Path ?p) (Path ?b) = ''/blog/post''"
    by (simp add: TrimPrefix_def HasPrefix_def)
  moreover have "sublist ''/blog/'' ''/blog/post''"
    using sublist_appendI [of "''/blog/''" "[]" "''post''"] by simp
  moreover have "''/blog/'' \<in> set ignorePaths" by (simp add: ignorePaths_def)
  ultimately have 2: "\<not> shouldProcessURL example_Parse ?s ''https://example.com/blog/post''"
    by auto
  have 3: "\<not> shouldProcessURL example_Parse ?s ''https://example.com/docs/100%zz''"
    using shouldProcessURL_rules [of example_Parse ?s "''https://example.com/docs/100%zz''",
        THEN conjunct1, THEN mp, OF disjI2, OF z] .
  from b i p z 1 2 3 show ?thesis by (intro conjI)
qed

text \<open>
  Claim C6 as stated fails for a URL that \<^verbatim>\<open>url.Parse\<close> rejects: it has no host that
  differs and no path that contains an infix, it is not marked visited, and it is
  rejected all the same.
\<close>

theorem shouldProcessURL_unparsed_url:
  "example_Parse ''https://example.com/docs/100%zz'' = None \<and>
   map_get (visitedURLs (example_scraper ByPages False)) ''https://example.com/docs/100%zz'' = False \<and>
   shouldProcessURL example_Parse (example_scraper ByPages False)
     ''https://example.com/docs/100%zz'' = False"
  by (simp add: example_Parse_def shouldProcessURL_def map_get_def example_scraper_fields)

section \<open>Properties of the rendering of code blocks\<close>

lemma Split_first:
  "sep \<noteq> [] \<Longrightarrow>
     Split s sep = (case Index s sep of
                      None \<Rightarrow> [s]
                    | Some m \<Rightarrow> take m s # Split (drop (m + length sep) s) sep)"
  by (subst Split.simps) simp

lemma hd_Split_single:
  "(case Split s [c] of [] \<Rightarrow> [] | l # _ \<Rightarrow> l) = takeWhile (\<lambda>x. x \<noteq> c) s"
proof (induction s)
  case Nil
  show ?case by (simp add: Split_Nil)
next
  case (Cons a s)
  then show ?case
    using Split_nonempty [of s "[c]"]
    by (cases "Split s [c]") (auto simp: Split_Cons)
qed

lemma second_part:
  assumes "pre \<noteq> []" and "Index className pre = Some i"
  shows "length (Split className pre) > 1"
    and "Split className pre ! 1 =
           (case Index (drop (i + length pre) className) pre of
              None \<Rightarrow> drop (i + length pre) className
            | Some m \<Rightarrow> take m (drop (i + length pre) className))"
proof -
  let ?b = "drop (i + length pre) className"
  have 1: "Split className pre = take i className # Split ?b pre"
    using assms by (simp add: Split_first [of pre className])
  have 2: "Split ?b pre \<noteq> []" by (rule Split_nonempty)
  from 1 2 show "length (Split className pre) > 1" by (cases "Split ?b pre") simp_all
  have "Split ?b pre ! 0 = (case Index ?b pre of None \<Rightarrow> ?b | Some m \<Rightarrow> take m ?b)"
    using assms(1) by (simp add: Split_first [of pre ?b] split: option.splits)
  with 1 show "Split className pre ! 1 = (case Index ?b pre of None \<Rightarrow> ?b | Some m \<Rightarrow> take m ?b)"
    by simp
qed

lemma detectLang_loop_found:
  assumes "pre \<noteq> []" and "Index className pre = Some i"
  shows "detectLang_loop className (pre # rest) =
           takeWhile (\<lambda>c. c \<noteq> CHR '' '')
             (case Index (drop (i + length pre) className) pre of
                None \<Rightarrow> drop (i + length pre) className
              | Some m \<Rightarrow> take m (drop (i + length pre) className))"
  using second_part [OF assms] assms(2)
  by (simp add: Contains_def Let_def hd_Split_single)

lemma detectLang_loop_skip:
  "\<forall>q \<in> set before. \<not> Contains className q \<Longrightarrow>
     detectLang_loop className (before @ rest) = detectLang_loop className rest"
  by (induction before) simp_all

lemma detectLang_none:
  assumes "\<forall>q \<in> set langClasses. \<not> Contains className q"
  shows "detectLang (Some className) = []"
  using detectLang_loop_skip [OF assms, of "[]"] by (simp add: detectLang_def)

lemma detectLang_first:
  assumes "langClasses = before @ pre # rest"
    and "\<forall>q \<in> set before. \<not> Contains className q"
    and "Index className pre = Some i"
  shows "detectLang (Some className) =
           takeWhile (\<lambda>c. c \<noteq> CHR '' '')
             (case Index (drop (i + length pre) className) pre of
                None \<Rightarrow> drop (i + length pre) className
              | Some m \<Rightarrow> take m (drop (i + length pre) className))"
proof -
  have "pre \<in> set langClasses" unfolding assms(1) by simp
  then have "pre \<noteq> []" by (auto simp: langClasses_def)
  then have "detectLang_loop className (pre # rest) =
           takeWhile (\<lambda>c. c \<noteq> CHR '' '')
             (case Index (drop (i + length pre) className) pre of
                None \<Rightarrow> drop (i + length pre) className
              | Some m \<Rightarrow> take m (drop (i + length pre) className))"
    using assms(3) by (rule detectLang_loop_found)
  moreover have "detectLang (Some className) = detectLang_loop className (before @ pre # rest)"
    by (simp only: detectLang_def option.case assms(1))
  moreover have "detectLang_loop className (before @ pre # rest) = detectLang_loop className (pre # rest)"
    using assms(2) by (rule detectLang_loop_skip)
  ultimately show ?thesis by simp
qed

lemma render_pre:
  "renderElement trim (Pre (Some (cls, codeText))) =
     (if trim codeText = [] then []
      else ''```'' @ detectLang cls @ ''\<newline>'' @ trim codeText @ ''\<newline>```\<newline>\<newline>'')"
  by (simp add: Let_def)

text \<open>
  Claim C7, as amended. A preformatted block with an embedded code element whose trimmed
  text is empty emits nothing; otherwise it emits a fence that opens with three backquotes
  and the language tag, and holds the trimmed text. The tag is empty (the fence is
  untagged) when the code element has no class attribute or the attribute contains none
  of \<^verbatim>\<open>language-\<close>, \<^verbatim>\<open>lang-\<close>, \<^verbatim>\<open>brush:\<close>. Otherwise, for the first of the three, in
  that order, that the attribute contains, the tag is what follows the first occurrence
  of that prefix, up to the next occurrence of the same prefix and then up to the next
  space character.
\<close>

theorem code_fence_language:
  "renderElement trim (Pre (Some (cls, codeText))) =
     (if trim codeText = [] then []
      else ''```'' @ detectLang cls @ ''\<newline>'' @ trim codeText @ ''\<newline>```\<newline>\<newline>'') \<and>
   detectLang None = [] \<and>
   ((\<forall>q \<in> set langClasses. \<not> Contains className q) \<longrightarrow> detectLang (Some className) = []) \<and>
   (\<forall>before pre rest i.
      langClasses = before @ pre # rest \<and> (\<forall>q \<in> set before. \<not> Contains className q) \<and>
      Index className pre = Some i \<longrightarrow>
      detectLang (Some className) =
        takeWhile (\<lambda>c. c \<noteq> CHR '' '')
          (case Index (drop (i + length pre) className) pre of
             None \<Rightarrow> drop (i + length pre) className
           | Some m \<Rightarrow> take m (drop (i + length pre) className))) \<and>
   langClasses = [''language-'', ''lang-'', ''brush:'']"
proof (intro conjI allI impI)
  show "renderElement trim (Pre (Some (cls, codeText))) =
     (if trim codeText = [] then []
      else ''```'' @ detectLang cls @ ''\<newline>'' @ trim codeText @ ''\<newline>```\<newline>\<newline>'')"
    by (rule render_pre)
  show "detectLang None = []" by (simp add: detectLang_def)
  show "detectLang (Some className) = []" if "\<forall>q \<in> set langClasses. \<not> Contains className q"
    using that by (rule detectLang_none)
  show "langClasses = [''language-'', ''lang-'', ''brush:'']" by (rule langClasses_def)
  show "detectLang (Some className) =
        takeWhile (\<lambda>c. c \<noteq> CHR '' '')
          (case Index (drop (i + length pre) className) pre of
             None \<Rightarrow> drop (i + length pre) className
           | Some m \<Rightarrow> take m (drop (i + length pre) className))"
    if "langClasses = before @ pre # rest \<and> (\<forall>q \<in> set before. \<not> Contains className q) \<and>
        Index className pre = Some i" for before pre rest i
    using that by (intro detectLang_first [of before pre rest]) simp_all
qed

text \<open>
  The theorem at the class \<^verbatim>\<open>language-python foo\<close>, which gives a fence that opens
  with the tag \<^verbatim>\<open>python\<close>, and at the class \<^verbatim>\<open>hljs\<close>, which gives an untagged fence.
\<close>

theorem code_fence_language_witness:
  "langClasses = [] @ ''language-'' # [''lang-'', ''brush:''] \<and>
   Index ''language-python foo'' ''language-'' = Some 0 \<and>
   detectLang (Some ''language-python foo'') = ''python'' \<and>
   renderElement ascii_TrimSpace (Pre (Some (Some ''language-python foo'', ''print(1)'')))
     = ''```python\<newline>print(1)\<newline>```\<newline>\<newline>'' \<and>
   list_all (\<lambda>q. \<not> Contains ''hljs'' q) langClasses \<and>
   renderElement ascii_TrimSpace (Pre (Some (Some ''hljs'', ''print(1)'')))
     = ''```\<newline>print(1)\<newline>```\<newline>\<newline>''"
proof -
  note rules = code_fence_language [of ascii_TrimSpace _ "''print(1)''" "''language-python foo''"]
  note rules2 = code_fence_language [of ascii_TrimSpace _ "''print(1)''" "''hljs''"]
  have l: "langClasses = [] @ ''language-'' # [''lang-'', ''brush:'']"
    by (simp add: langClasses_def)
  have i: "Index ''language-python foo'' ''language-'' = Some 0"
    by (simp add: HasPrefix_def)
  have "langClasses = [] @ ''language-'' # [''lang-'', ''brush:''] \<and>
        (\<forall>q \<in> set []. \<not> Contains ''language-python foo'' q) \<and>
        Index ''language-python foo'' ''language-'' = Some 0"
    using l i by simp
  then have "detectLang (Some ''language-python foo'') =
        takeWhile (\<lambda>c. c \<noteq> CHR '' '')
          (case Index (drop (0 + length ''language-'') ''language-python foo'') ''language-'' of
             None \<Rightarrow> drop (0 + length ''language-'') ''language-python foo''
           | Some m \<Rightarrow> take m (drop (0 + length ''language-'') ''language-python foo''))"
    by (rule rules [THEN conjunct2, THEN conjunct2, THEN conjunct2, THEN conjunct1,
          THEN spec, THEN spec, THEN spec, THEN spec, THEN mp])
  then have d: "detectLang (Some ''language-python foo'') = ''python''"
    by (simp add: HasPrefix_def)
  have t: "ascii_TrimSpace ''print(1)'' = ''print(1)''"
    by (simp add: ascii_TrimSpace_def Trim_def)
  have r: "renderElement ascii_TrimSpace (Pre (Some (Some ''language-python foo'', ''print(1)'')))
     = ''```python\<newline>print(1)\<newline>```\<newline>\<newline>''"
    using rules [of "Some ''language-python foo''", THEN conjunct1] by (simp add: d t)
  have n: "list_all (\<lambda>q. \<not> Contains ''hljs'' q) langClasses"
    by (simp add: langClasses_def Contains_def HasPrefix_def)
  then have "\<forall>q \<in> set langClasses. \<not> Contains ''hljs'' q" by (simp add: list_all_iff)
  then have d2: "detectLang (Some ''hljs'') = []"
    by (rule rules2 [THEN conjunct2, THEN conjunct2, THEN conjunct1, THEN mp])
  have r2: "renderElement ascii_TrimSpace (Pre (Some (Some ''hljs'', ''print(1)'')))
     = ''```\<newline>print(1)\<newline>```\<newline>\<newline>''"
    using rules2 [of "Some ''hljs''", THEN conjunct1] by (simp add: d2 t)
  from l i d r n r2 show ?thesis by (intro conjI)
qed

text \<open>
  Claim C7 as stated fails for a class attribute whose names are separated by a tab:
  the tag runs over the tab to the next space, where the claim ends it at the next white
  space. It also fails for a code element of white space only, with no recognised
  prefix: no fence is emitted.
\<close>

theorem code_fence_language_tab:
  "detectLang (Some (''language-python'' @ [CHR 0x09] @ ''foo'')) = ''python'' @ [CHR 0x09] @ ''foo'' \<and>
   spec_language_tag (''language-python'' @ [CHR 0x09] @ ''foo'') ''language-'' = ''python'' \<and>
   renderElement ascii_TrimSpace (Pre (Some (None, '' '')))  = []"
proof (intro conjI)
  have i: "Index (''language-python'' @ [CHR 0x09] @ ''foo'') ''language-'' = Some 0"
    by (simp add: HasPrefix_def)
  have "detectLang (Some (''language-python'' @ [CHR 0x09] @ ''foo'')) =
        takeWhile (\<lambda>c. c \<noteq> CHR '' '')
          (case Index (drop (0 + length ''language-'') (''language-python'' @ [CHR 0x09] @ ''foo'')) ''language-'' of
             None \<Rightarrow> drop (0 + length ''language-'') (''language-python'' @ [CHR 0x09] @ ''foo'')
           | Some m \<Rightarrow> take m (drop (0 + length ''language-'') (''language-python'' @ [CHR 0x09] @ ''foo'')))"
    by (rule detectLang_first [of "[]" _ "[''lang-'', ''brush:'']"])
      (simp_all add: langClasses_def HasPrefix_def)
  then show "detectLang (Some (''language-python'' @ [CHR 0x09] @ ''foo'')) = ''python'' @ [CHR 0x09] @ ''foo''"
    by (simp add: HasPrefix_def)
  show "spec_language_tag (''language-python'' @ [CHR 0x09] @ ''foo'') ''language-'' = ''python''"
    by (simp add: spec_language_tag_def HasPrefix_def isSpace_def)
  show "renderElement ascii_TrimSpace (Pre (Some (None, '' '')))  = []"
    by (simp add: ascii_TrimSpace_def Trim_def)
qed

section \<open>Properties of Scrape in single-page mode\<close>

lemma scrapePage_content:
  assumes "scrapePage w s t url = Inr page"
  shows "\<exists>rest. Content page = ''\<newline>## Source: '' @ url @ ''\<newline>\<newline>'' @ rest"
  using assms by (auto simp: scrapePage_def Let_def split: sum.splits option.splits)

lemma Scrape_singlePage_failed:
  assumes "singlePage s" and "scrapePage w s 0 (baseURL s) = Inl err"
  shows "Scrape w fuel s = Some ([], Some (''error scraping page '' @ baseURL s @ '': '' @ err))"
  using assms by (simp add: Scrape_def)

lemma Scrape_singlePage_scraped:
  assumes "singlePage s" and "scrapePage w s 0 (baseURL s) = Inr page"
  shows "Scrape w fuel s =
           Some (let path = (if organization s = SingleFile then outputPath s
                             else filepath_Join w (outputDir s) (Filename page))
                 in case os_write w 0 path (Content page) of
                      None \<Rightarrow> ([(path, Content page)], None)
                    | Some err \<Rightarrow> ([], Some err))"
  using assms by (simp add: Scrape_def writeContentToFile_def Let_def split: option.splits)

text \<open>
  Claim C10, as amended. In a run with the single-page flag set, if scraping the seed
  page fails, nothing is written and \<^verbatim>\<open>Scrape\<close> returns the error. If it succeeds,
  exactly one write is made: of the content of the seed page alone, which starts with
  its source line and not with the corpus title header, to the configured output path in
  mode single and to the output directory joined with the page's file name in the modes
  chapters and pages. The file exists if that write succeeds, and the error of the write
  is returned if not. No index is written in either case.
\<close>

theorem Scrape_singlePage:
  "singlePage s \<longrightarrow>
     (\<forall>err. scrapePage w s 0 (baseURL s) = Inl err \<longrightarrow>
        Scrape w fuel s = Some ([], Some (''error scraping page '' @ baseURL s @ '': '' @ err))) \<and>
     (\<forall>page. scrapePage w s 0 (baseURL s) = Inr page \<longrightarrow>
        Scrape w fuel s =
          Some (let path = (if organization s = SingleFile then outputPath s
                            else filepath_Join w (outputDir s) (Filename page))
                in case os_write w 0 path (Content page) of
                     None \<Rightarrow> ([(path, Content page)], None)
                   | Some err \<Rightarrow> ([], Some err)) \<and>
        Filename page = pageFilename (case_table w) (Title page) (baseURL s) \<and>
        (\<exists>rest. Content page = ''\<newline>## Source: '' @ baseURL s @ ''\<newline>\<newline>'' @ rest))"
proof (intro impI conjI allI)
  assume s: "singlePage s"
  show "Scrape w fuel s = Some ([], Some (''error scraping page '' @ baseURL s @ '': '' @ err))"
    if "scrapePage w s 0 (baseURL s) = Inl err" for err
    using s that by (rule Scrape_singlePage_failed)
  fix page
  assume p: "scrapePage w s 0 (baseURL s) = Inr page"
  show "Scrape w fuel s =
          Some (let path = (if organization s = SingleFile then outputPath s
                            else filepath_Join w (outputDir s) (Filename page))
                in case os_write w 0 path (Content page) of
                     None \<Rightarrow> ([(path, Content page)], None)
                   | Some err \<Rightarrow> ([], Some err))"
    using s p by (rule Scrape_singlePage_scraped)
  show "Filename page = pageFilename (case_table w) (Title page) (baseURL s)"
    using p by (rule scrapePage_Inr)
  show "\<exists>rest. Content page = ''\<newline>## Source: '' @ baseURL s @ ''\<newline>\<newline>'' @ rest"
    using p by (rule scrapePage_content)
qed

lemma pageFilename_Guide: "pageFilename latin1_lower ''Guide'' url = ''guide.md''"
proof -
  have "lowerByte CHR ''G'' = CHR ''g''"
    unfolding lowerByte_def byte_def chr_def by code_simp
  then have "map lowerByte ''Guide'' = ''guide''"
    by (simp add: lowerByte_def byte_def)
  moreover have "isASCII ''Guide''" by (simp add: isASCII_def byte_def)
  ultimately have "sanitizeFilename latin1_lower ''Guide'' = ''guide''"
    by (simp add: sanitizeFilename_eq ToLower_def safeChar_def invalid_def)
  then show ?thesis by (simp add: pageFilename_def Let_def)
qed

lemma example_page_title:
  assumes "scrapePage example_world s t url = Inr page"
  shows "Title page = ''Guide''"
proof -
  have "ascii_TrimSpace '' Guide '' = ''Guide''"
    by (simp add: ascii_TrimSpace_def Trim_def)
  with assms show ?thesis
    by (auto simp: scrapePage_def Let_def example_world_def example_document_def)
qed

text \<open>
  The theorem at the example site, in mode pages and in mode single: one file each,
  \<^verbatim>\<open>out/docs/guide.md\<close> and \<^verbatim>\<open>out/docs.md\<close>.
\<close>

theorem Scrape_singlePage_witness:
  "singlePage (example_scraper ByPages True) \<and>
   (\<exists>page. scrapePage example_world (example_scraper ByPages True) 0
              (baseURL (example_scraper ByPages True)) = Inr page \<and>
            Scrape example_world 0 (example_scraper ByPages True)
              = Some ([(''out/docs/guide.md'', Content page)], None)) \<and>
   (\<exists>page. scrapePage example_world (example_scraper SingleFile True) 0
              (baseURL (example_scraper SingleFile True)) = Inr page \<and>
            Scrape example_world 0 (example_scraper SingleFile True)
              = Some ([(''out/docs.md'', Content page)], None)) \<and>
   scrapePage offline_world (example_scraper ByPages True) 0
     (baseURL (example_scraper ByPages True)) = Inl ''timeout'' \<and>
   Scrape offline_world 0 (example_scraper ByPages True)
     = Some ([], Some (''error scraping page '' @ baseURL (example_scraper ByPages True)
                         @ '': '' @ ''timeout''))"
proof (intro conjI)
  show s: "singlePage (example_scraper ByPages True)" by (simp add: example_scraper_fields)
  have s': "singlePage (example_scraper SingleFile True)" by (simp add: example_scraper_fields)
  have d: "http_document example_world 0 url = Inr example_document" for url
    by (simp add: example_world_def)
  have e: "os_write example_world 0 path content = None"
    "filepath_Join example_world dir name = dir @ ''/'' @ name"
    "case_table example_world = latin1_lower" for path content dir name
    by (simp_all add: example_world_def)
  {
    fix org
    let ?s = "example_scraper org True"
    assume st: "singlePage ?s"
    obtain page where p: "scrapePage example_world ?s 0 (baseURL ?s) = Inr page"
      using scrapePage_ok [OF d] by blast
    have t: "Title page = ''Guide''" using p by (rule example_page_title)
    note r = Scrape_singlePage [of ?s example_world 0, THEN mp, OF st, THEN conjunct2,
        THEN spec, THEN mp, OF p]
    from r have "Filename page = ''guide.md''"
      by (simp add: e t pageFilename_Guide)
    with r have "Scrape example_world 0 ?s =
        Some ([(if org = SingleFile then ''out/docs.md'' else ''out/docs/guide.md'',
                Content page)], None)"
      by (simp add: e example_scraper_fields)
    with p have "\<exists>page. scrapePage example_world ?s 0 (baseURL ?s) = Inr page \<and>
        Scrape example_world 0 ?s =
          Some ([(if org = SingleFile then ''out/docs.md'' else ''out/docs/guide.md'',
                  Content page)], None)"
      by blast
  }
  note both = this
  from both [OF s] show "\<exists>page. scrapePage example_world (example_scraper ByPages True) 0
              (baseURL (example_scraper ByPages True)) = Inr page \<and>
            Scrape example_world 0 (example_scraper ByPages True)
              = Some ([(''out/docs/guide.md'', Content page)], None)" by simp
  from both [OF s'] show "\<exists>page. scrapePage example_world (example_scraper SingleFile True) 0
              (baseURL (example_scraper SingleFile True)) = Inr page \<and>
            Scrape example_world 0 (example_scraper SingleFile True)
              = Some ([(''out/docs.md'', Content page)], None)" by simp
  show off: "scrapePage offline_world (example_scraper ByPages True) 0
     (baseURL (example_scraper ByPages True)) = Inl ''timeout''"
    by (simp add: scrapePage_Inl offline_world_def)
  show "Scrape offline_world 0 (example_scraper ByPages True)
     = Some ([], Some (''error scraping page '' @ baseURL (example_scraper ByPages True)
                         @ '': '' @ ''timeout''))"
    by (rule Scrape_singlePage [of "example_scraper ByPages True" offline_world 0, THEN mp, OF s,
          THEN conjunct1, THEN spec, THEN mp, OF off])
qed

text \<open>
  Claim C10 as stated fails for a run in which the request for the seed page fails: in
  mode pages no page file is written, where the claim has exactly one.
\<close>

theorem Scrape_singlePage_offline:
  "singlePage (example_scraper ByPages True) \<and>
   organization (example_scraper ByPages True) = ByPages \<and>
   Scrape offline_world 0 (example_scraper ByPages True)
     = Some ([], Some ''error scraping page https://example.com/docs: timeout'')"
  by (simp add: Scrape_def scrapePage_def offline_world_def example_world_def
        example_scraper_fields)

section \<open>Properties of the crawl loop\<close>

lemma crawl_step_empty: "links st = [] \<Longrightarrow> crawl_step w st = st"
  by (simp add: crawl_step_def)

lemma crawl_step_processed:
  assumes "links st = u # rest" and "map_get (processed st) u"
  shows "crawl_step w st =
           st\<lparr>links := rest, tick := Suc (tick st), dequeued := dequeued st @ [u]\<rparr>"
  using assms by (simp add: crawl_step_def Let_def)

lemma crawl_step_failed:
  assumes "links st = u # rest" and "\<not> map_get (processed st) u"
    and "scrapePage w (scraper st) (tick st) u = Inl err"
  shows "crawl_step w st =
           st\<lparr>links := rest, tick := Suc (tick st), dequeued := dequeued st @ [u],
              fetched := fetched st @ [u], failed := failed st @ [u]\<rparr>"
  using assms by (simp add: crawl_step_def Let_def)

lemma crawl_step_scraped:
  assumes "links st = u # rest" and "\<not> map_get (processed st) u"
    and "scrapePage w (scraper st) (tick st) u = Inr page"
  shows "crawl_step w st =
           st\<lparr>scraper := (scraper st)\<lparr>pages := pages (scraper st) @ [page]\<rparr>,
              links := rest @ newLinks w st u page,
              processed := (processed st)(u \<mapsto> True),
              mainContent :=
                (if organization (scraper st) = SingleFile
                 then mainContent st @ Content page else mainContent st),
              written :=
                (if organization (scraper st) = SingleFile then written st
                 else fst (writeContentToFile w (tick st) (written st)
                        (filepath_Join w (outputDir (scraper st)) (Filename page))
                        (Content page))),
              tick := Suc (tick st),
              enqueued := enqueued st @ newLinks w st u page,
              dequeued := dequeued st @ [u],
              fetched := fetched st @ [u]\<rparr>"
  using assms
  by (cases "organization (scraper st)")
     (auto simp: crawl_step_def Let_def newLinks_def split: sum.splits)


lemma map_get_upd: "map_get (m(u \<mapsto> True)) x \<longleftrightarrow> x = u \<or> map_get m x"
  by (simp add: map_get_def)

lemma map_get_empty: "\<not> map_get Map.empty x"
  by (simp add: map_get_def)

lemma crawl_inv_init: "pages s = [] \<Longrightarrow> crawl_inv s (crawl_init s)"
  by (simp add: crawl_inv_def crawl_init_def map_get_empty)

lemma crawl_inv_step:
  assumes "crawl_inv s st"
  shows "crawl_inv s (crawl_step w st)"
proof (cases "links st")
  case Nil
  then show ?thesis using assms by (simp add: crawl_step_empty)
next
  case (Cons u rest)
  show ?thesis
  proof (cases "map_get (processed st) u")
    case True
    then have "u \<in> set (dequeued st)" using assms by (auto simp: crawl_inv_def)
    then show ?thesis
      using assms Cons by (auto simp: crawl_step_processed [OF Cons True] crawl_inv_def)
  next
    case False
    show ?thesis
    proof (cases "scrapePage w (scraper st) (tick st) u")
      case (Inl err)
      have "subseq (fetched st @ [u]) (dequeued st @ [u])"
        using assms by (intro list_emb_append_mono) (simp_all add: crawl_inv_def)
      then show ?thesis
        using assms Cons by (auto simp: crawl_step_failed [OF Cons False Inl] crawl_inv_def)
    next
      case (Inr page)
      have url: "URL page = u" using Inr by (rule scrapePage_Inr)
      have new: "u \<notin> set (map URL (pages (scraper st)))"
        using assms False by (auto simp: crawl_inv_def)
      have sub: "subseq (fetched st @ [u]) (dequeued st @ [u])"
        using assms by (intro list_emb_append_mono) (simp_all add: crawl_inv_def)
      have keys: "{x. map_get ((processed st)(u \<mapsto> True)) x} = insert u {x. map_get (processed st) x}"
        by (auto simp: map_get_upd)
      show ?thesis
        using assms new sub Cons
        by (auto simp: crawl_step_scraped [OF Cons False Inr] crawl_inv_def url keys)
    qed
  qed
qed

lemma crawl_inv_run: "pages s = [] \<Longrightarrow> crawl_inv s (crawl_run w n s)"
  by (induction n) (simp_all add: crawl_run_def crawl_inv_init crawl_inv_step)

lemma NewScraper_pages: "pages (NewScraper parse rawURL out org single) = []"
  by (simp add: NewScraper_def)

lemma crawl_step_new_unprocessed:
  "\<forall>u \<in> set (drop (length (enqueued st)) (enqueued (crawl_step w st))).
     \<not> map_get (processed (crawl_step w st)) u"
proof (cases "links st")
  case Nil
  then show ?thesis by (simp add: crawl_step_empty)
next
  case (Cons u rest)
  show ?thesis
  proof (cases "map_get (processed st) u")
    case True
    then show ?thesis by (simp add: crawl_step_processed [OF Cons True])
  next
    case False
    show ?thesis
    proof (cases "scrapePage w (scraper st) (tick st) u")
      case (Inl err)
      then show ?thesis by (simp add: crawl_step_failed [OF Cons False Inl])
    next
      case (Inr page)
      then show ?thesis
        by (auto simp: crawl_step_scraped [OF Cons False Inr] newLinks_def map_get_def
              split: sum.splits)
    qed
  qed
qed

lemma crawl_loop_run:
  "crawl_loop w n st =
     (if links ((crawl_step w ^^ n) st) = [] then Some ((crawl_step w ^^ n) st) else None)"
proof (induction n arbitrary: st)
  case 0
  show ?case by simp
next
  case (Suc n)
  have idle: "(crawl_step w ^^ k) st = st" if "links st = []" for k
    using that by (induction k) (simp_all add: crawl_step_empty)
  show ?case
  proof (cases "links st = []")
    case True
    then show ?thesis using idle [of "Suc n"] by simp
  next
    case False
    then show ?thesis using Suc.IH [of "crawl_step w st"] by (simp add: funpow_swap1)
  qed
qed

lemma no_failures:
  assumes "\<forall>t url. \<exists>doc. http_document w t url = Inr doc"
  shows "failed (crawl_run w n s) = []"
proof (induction n)
  case 0
  show ?case by (simp add: crawl_run_def crawl_init_def)
next
  case (Suc n)
  let ?st = "crawl_run w n s"
  have step: "crawl_run w (Suc n) s = crawl_step w ?st" by (simp add: crawl_run_def)
  show ?case
  proof (cases "links ?st")
    case Nil
    then show ?thesis using Suc by (simp add: step crawl_step_empty)
  next
    case (Cons u rest)
    show ?thesis
    proof (cases "map_get (processed ?st) u")
      case True
      then show ?thesis using Suc by (simp add: step crawl_step_processed [OF Cons True])
    next
      case False
      obtain doc where "http_document w (tick ?st) u = Inr doc" using assms by blast
      then obtain page where p: "scrapePage w (scraper ?st) (tick ?st) u = Inr page"
        using scrapePage_ok by blast
      show ?thesis using Suc by (simp add: step crawl_step_scraped [OF Cons False p])
    qed
  qed
qed

lemma example_links:
  assumes "url_Parse w = example_Parse"
    and "http_hrefs w t ''https://example.com/docs'' =
           Inr [''intro'', ''/docs/intro'', ''/blog/post'', ''https://other.org/docs/intro'']"
    and "baseURL s = ''https://example.com/docs''" and "domainPrefix s = ''https://example.com''"
    and "visitedURLs s = Map.empty"
  shows "getAllDocLinks w s t ''https://example.com/docs'' =
           Inr [''https://example.com/docs/intro'', ''https://example.com/docs/intro'']"
proof -
  have r: "resolveURL example_Parse s ''intro'' = ''https://example.com/docs/intro''"
    "resolveURL example_Parse s ''/docs/intro'' = ''https://example.com/docs/intro''"
    "resolveURL example_Parse s ''/blog/post'' = ''https://example.com/blog/post''"
    "resolveURL example_Parse s ''https://other.org/docs/intro'' = ''https://other.org/docs/intro''"
    by (simp_all add: resolveURL_def HasPrefix_def assms(3,4))
  have 1: "shouldProcessURL example_Parse s ''https://example.com/docs/intro''"
    by (simp add: shouldProcessURL_def assms(3,5) example_Parse_def map_get_empty
          TrimPrefix_def HasPrefix_def ignorePaths_def Contains_def)
  have 2: "\<not> shouldProcessURL example_Parse s ''https://example.com/blog/post''"
    by (simp add: shouldProcessURL_def assms(3,5) example_Parse_def map_get_empty
          TrimPrefix_def HasPrefix_def ignorePaths_def Contains_def)
  have 3: "\<not> shouldProcessURL example_Parse s ''https://other.org/docs/intro''"
    by (simp add: shouldProcessURL_def assms(3) example_Parse_def)
  show ?thesis
    by (simp add: getAllDocLinks_def assms(1,2) r 1 2 3)
qed

lemma example_first_step:
  assumes "url_Parse w = example_Parse"
    and "http_hrefs w 0 ''https://example.com/docs'' =
           Inr [''intro'', ''/docs/intro'', ''/blog/post'', ''https://other.org/docs/intro'']"
    and "http_document w 0 ''https://example.com/docs'' = Inr doc"
  shows "links (crawl_run w 1 (example_scraper org single)) =
           [''https://example.com/docs/intro'', ''https://example.com/docs/intro'']"
    and "enqueued (crawl_run w 1 (example_scraper org single)) =
           [''https://example.com/docs'', ''https://example.com/docs/intro'',
            ''https://example.com/docs/intro'']"
    and "processed (crawl_run w 1 (example_scraper org single)) =
           [''https://example.com/docs'' \<mapsto> True]"
    and "tick (crawl_run w 1 (example_scraper org single)) = 1"
    and "fetched (crawl_run w 1 (example_scraper org single)) = [''https://example.com/docs'']"
    and "failed (crawl_run w 1 (example_scraper org single)) = []"
    and "dequeued (crawl_run w 1 (example_scraper org single)) = [''https://example.com/docs'']"
proof -
  let ?s = "example_scraper org single"
  let ?st = "crawl_init ?s"
  let ?seed = "''https://example.com/docs''"
  have l: "links ?st = ?seed # []" by (simp add: crawl_init_def example_scraper_fields)
  have np: "\<not> map_get (processed ?st) ?seed" by (simp add: crawl_init_def map_get_empty)
  obtain page where p: "scrapePage w (scraper ?st) (tick ?st) ?seed = Inr page"
    using scrapePage_ok [of w 0 ?seed doc] assms(3) by (auto simp: crawl_init_def)
  have "getAllDocLinks w ((scraper ?st)\<lparr>pages := pages (scraper ?st) @ [page]\<rparr>) (tick ?st) ?seed
          = Inr [''https://example.com/docs/intro'', ''https://example.com/docs/intro'']"
    using assms(1,2) by (intro example_links) (simp_all add: crawl_init_def example_scraper_fields)
  then have n: "newLinks w ?st ?seed page =
          [''https://example.com/docs/intro'', ''https://example.com/docs/intro'']"
    by (simp add: newLinks_def map_get_upd crawl_init_def map_get_empty)
  have run: "crawl_run w (Suc 0) ?s = crawl_step w ?st" by (simp add: crawl_run_def)
  note step = crawl_step_scraped [OF l np p]
  show "links (crawl_run w 1 ?s) =
           [''https://example.com/docs/intro'', ''https://example.com/docs/intro'']"
    by (simp add: run step n)
  show "enqueued (crawl_run w 1 ?s) =
           [?seed, ''https://example.com/docs/intro'', ''https://example.com/docs/intro'']"
    by (simp add: run step n) (simp add: crawl_init_def example_scraper_fields)
  show "processed (crawl_run w 1 ?s) = [?seed \<mapsto> True]"
    by (simp add: run step) (simp add: crawl_init_def)
  show "tick (crawl_run w 1 ?s) = 1" by (simp add: run step) (simp add: crawl_init_def)
  show "fetched (crawl_run w 1 ?s) = [?seed]" by (simp add: run step) (simp add: crawl_init_def)
  show "failed (crawl_run w 1 ?s) = []" by (simp add: run step) (simp add: crawl_init_def)
  show "dequeued (crawl_run w 1 ?s) = [?seed]" by (simp add: run step) (simp add: crawl_init_def)
qed


text \<open>
  Claim C1, as amended. At every iteration boundary of every crawl, and so at its end:
  no URL has been processed twice (the URLs of the recorded pages are distinct, and they
  are exactly the URLs marked in \<^verbatim>\<open>processed\<close>); no URL that an iteration appends to
  the queue is marked processed at that time; and every URL dequeued so far is either
  marked processed or has failed to scrape, so that the processed set has as many
  elements as there are distinct URLs dequeued whenever no scrape has failed. The loop,
  when it ends within \<open>n\<close> iterations, ends in the state reached after \<open>n\<close> iterations.
\<close>

theorem crawl_processes_once:
  fixes w :: world and n :: nat and rawURL out :: string and org :: Organization and single :: bool
  defines "st \<equiv> crawl_run w n (NewScraper (url_Parse w) rawURL out org single)"
  shows "distinct (map URL (pages (scraper st))) \<and>
         {u. map_get (processed st) u} = set (map URL (pages (scraper st))) \<and>
         (\<forall>u \<in> set (drop (length (enqueued st)) (enqueued (crawl_step w st))).
            \<not> map_get (processed (crawl_step w st)) u) \<and>
         set (dequeued st) = {u. map_get (processed st) u} \<union> set (failed st) \<and>
         (failed st = [] \<longrightarrow> card {u. map_get (processed st) u} = card (set (dequeued st))) \<and>
         crawl_loop w n (crawl_init (NewScraper (url_Parse w) rawURL out org single))
           = (if links st = [] then Some st else None)"
proof -
  have inv: "crawl_inv (NewScraper (url_Parse w) rawURL out org single) st"
    unfolding st_def by (rule crawl_inv_run) (rule NewScraper_pages)
  have 1: "distinct (map URL (pages (scraper st)))"
    and 2: "{u. map_get (processed st) u} = set (map URL (pages (scraper st)))"
    and 4: "set (dequeued st) = {u. map_get (processed st) u} \<union> set (failed st)"
    using inv by (simp_all add: crawl_inv_def)
  have 3: "\<forall>u \<in> set (drop (length (enqueued st)) (enqueued (crawl_step w st))).
            \<not> map_get (processed (crawl_step w st)) u"
    by (rule crawl_step_new_unprocessed)
  have 5: "failed st = [] \<longrightarrow> card {u. map_get (processed st) u} = card (set (dequeued st))"
    using 4 by simp
  have 6: "crawl_loop w n (crawl_init (NewScraper (url_Parse w) rawURL out org single))
           = (if links st = [] then Some st else None)"
    unfolding st_def crawl_run_def by (rule crawl_loop_run)
  from 1 2 3 4 5 6 show ?thesis by (intro conjI)
qed


lemma example_world_fields:
  "url_Parse example_world = example_Parse"
  "http_hrefs example_world t ''https://example.com/docs'' =
     Inr [''intro'', ''/docs/intro'', ''/blog/post'', ''https://other.org/docs/intro'']"
  "http_document example_world t url = Inr example_document"
  by (simp_all add: example_world_def)

lemma flaky_world_fields:
  "url_Parse flaky_world = example_Parse"
  "http_hrefs flaky_world t ''https://example.com/docs'' =
     Inr [''intro'', ''/docs/intro'', ''/blog/post'', ''https://other.org/docs/intro'']"
  "http_document flaky_world t ''https://example.com/docs'' = Inr example_document"
  "http_document flaky_world t ''https://example.com/docs/intro'' = Inl ''timeout''"
  by (simp_all add: flaky_world_def example_world_def)

text \<open>
  The theorem at the example site: the first iteration appends the page
  \<^verbatim>\<open>https://example.com/docs/intro\<close>, which is not processed then, and after it no
  scrape has failed and one URL has been dequeued and processed.
\<close>

theorem crawl_processes_once_witness:
  "''https://example.com/docs/intro''
     \<in> set (drop (length (enqueued (crawl_run example_world 0 (example_scraper ByPages False))))
               (enqueued (crawl_step example_world
                  (crawl_run example_world 0 (example_scraper ByPages False))))) \<and>
   \<not> map_get (processed (crawl_step example_world
                   (crawl_run example_world 0 (example_scraper ByPages False))))
         ''https://example.com/docs/intro'' \<and>
   failed (crawl_run example_world 1 (example_scraper ByPages False)) = [] \<and>
   card {u. map_get (processed (crawl_run example_world 1 (example_scraper ByPages False))) u}
     = card (set (dequeued (crawl_run example_world 1 (example_scraper ByPages False))))"
proof -
  let ?s = "example_scraper ByPages False"
  let ?intro = "''https://example.com/docs/intro''"
  have s: "?s = NewScraper (url_Parse example_world) ''https://example.com/docs'' ''out/docs.md''
                  ByPages False"
    by (simp add: example_scraper_def example_world_fields)
  note first = example_first_step [of example_world example_document ByPages False,
      OF example_world_fields(1) example_world_fields(2) example_world_fields(3)]
  have step: "crawl_step example_world (crawl_run example_world 0 ?s) = crawl_run example_world 1 ?s"
    by (simp add: crawl_run_def)
  have "enqueued (crawl_run example_world 0 ?s) = [''https://example.com/docs'']"
    by (simp add: crawl_run_def crawl_init_def example_scraper_fields)
  then have a: "?intro \<in> set (drop (length (enqueued (crawl_run example_world 0 ?s)))
               (enqueued (crawl_step example_world (crawl_run example_world 0 ?s))))"
    by (simp add: step first [unfolded One_nat_def])
  have "\<forall>u \<in> set (drop (length (enqueued (crawl_run example_world 0 ?s)))
               (enqueued (crawl_step example_world (crawl_run example_world 0 ?s)))).
          \<not> map_get (processed (crawl_step example_world (crawl_run example_world 0 ?s))) u"
    unfolding s
    by (rule crawl_processes_once [THEN conjunct2, THEN conjunct2, THEN conjunct1])
  from this a have b: "\<not> map_get (processed (crawl_step example_world (crawl_run example_world 0 ?s)))
                     ?intro"
    by (rule bspec)
  have c: "failed (crawl_run example_world 1 ?s) = []" by (rule first)
  have "failed (crawl_run example_world 1 ?s) = [] \<longrightarrow>
          card {u. map_get (processed (crawl_run example_world 1 ?s)) u}
            = card (set (dequeued (crawl_run example_world 1 ?s)))"
    unfolding s
    by (rule crawl_processes_once [THEN conjunct2, THEN conjunct2, THEN conjunct2,
          THEN conjunct2, THEN conjunct1])
  with c have d: "card {u. map_get (processed (crawl_run example_world 1 ?s)) u}
            = card (set (dequeued (crawl_run example_world 1 ?s)))"
    by (rule rev_mp)
  from a b c d show ?thesis by (intro conjI)
qed

text \<open>
  Claim C1 as stated fails on the example site: the seed page links twice to the same
  page, and the first iteration appends that URL to the queue twice.
\<close>

theorem crawl_enqueues_twice:
  "enqueued (crawl_run example_world 1 (example_scraper ByPages False)) =
     [''https://example.com/docs'', ''https://example.com/docs/intro'',
      ''https://example.com/docs/intro''] \<and>
   \<not> distinct (enqueued (crawl_run example_world 1 (example_scraper ByPages False)))"
  using example_first_step(2) [of example_world example_document ByPages False,
      OF example_world_fields(1) example_world_fields(2) example_world_fields(3)]
  by simp


text \<open>
  Claim C2, as amended. At every iteration boundary of every crawl, the URLs passed to
  \<^verbatim>\<open>scrapePage\<close> so far are a subsequence of the URLs dequeued so far: every attempt
  uses up one entry of the queue, and nothing is retried on the spot. When scraping the
  URL at the front of the queue fails, the iteration only removes that entry: the crawl
  goes on with the rest of the queue, no page is recorded and the URL is not marked
  processed.
\<close>

theorem crawl_failed_page:
  fixes w :: world and n :: nat and rawURL out :: string and org :: Organization and single :: bool
  defines "st \<equiv> crawl_run w n (NewScraper (url_Parse w) rawURL out org single)"
  shows "enqueued st = dequeued st @ links st \<and>
         subseq (fetched st) (dequeued st) \<and>
         set (failed st) \<subseteq> set (fetched st) \<and>
         (\<forall>u rest err.
            links st = u # rest \<and> \<not> map_get (processed st) u \<and>
            scrapePage w (scraper st) (tick st) u = Inl err \<longrightarrow>
            crawl_step w st =
              st\<lparr>links := rest, tick := Suc (tick st), dequeued := dequeued st @ [u],
                 fetched := fetched st @ [u], failed := failed st @ [u]\<rparr>)"
proof -
  have inv: "crawl_inv (NewScraper (url_Parse w) rawURL out org single) st"
    unfolding st_def by (rule crawl_inv_run) (rule NewScraper_pages)
  have 1: "enqueued st = dequeued st @ links st"
    and 2: "subseq (fetched st) (dequeued st)"
    and 3: "set (failed st) \<subseteq> set (fetched st)"
    using inv by (simp_all add: crawl_inv_def)
  have 4: "\<forall>u rest err.
            links st = u # rest \<and> \<not> map_get (processed st) u \<and>
            scrapePage w (scraper st) (tick st) u = Inl err \<longrightarrow>
            crawl_step w st =
              st\<lparr>links := rest, tick := Suc (tick st), dequeued := dequeued st @ [u],
                 fetched := fetched st @ [u], failed := failed st @ [u]\<rparr>"
    using crawl_step_failed by blast
  from 1 2 3 4 show ?thesis by (intro conjI)
qed

lemma flaky_scrape_intro:
  "scrapePage flaky_world s t ''https://example.com/docs/intro'' = Inl ''timeout''"
  by (simp add: scrapePage_Inl flaky_world_fields)

lemma flaky_state_fields:
  "links flaky_state = [''https://example.com/docs/intro'', ''https://example.com/docs/intro'']"
  "processed flaky_state = [''https://example.com/docs'' \<mapsto> True]"
  "fetched flaky_state = [''https://example.com/docs'']"
  "failed flaky_state = []"
  unfolding flaky_state_def
  by (rule example_first_step [of flaky_world example_document ByPages False,
        OF flaky_world_fields(1) flaky_world_fields(2) flaky_world_fields(3)])+

lemma flaky_state_unprocessed: "\<not> map_get (processed flaky_state) ''https://example.com/docs/intro''"
  by (simp add: flaky_state_fields map_get_def)

text \<open>
  The theorem at the flaky site after the first iteration: the page at the front of the
  queue fails to scrape and the iteration leaves the rest of the queue.
\<close>

theorem crawl_failed_page_witness:
  "links flaky_state = ''https://example.com/docs/intro'' # [''https://example.com/docs/intro''] \<and>
   \<not> map_get (processed flaky_state) ''https://example.com/docs/intro'' \<and>
   scrapePage flaky_world (scraper flaky_state) (tick flaky_state) ''https://example.com/docs/intro''
     = Inl ''timeout'' \<and>
   crawl_step flaky_world flaky_state =
     flaky_state\<lparr>links := [''https://example.com/docs/intro''],
        tick := Suc (tick flaky_state),
        dequeued := dequeued flaky_state @ [''https://example.com/docs/intro''],
        fetched := fetched flaky_state @ [''https://example.com/docs/intro''],
        failed := failed flaky_state @ [''https://example.com/docs/intro'']\<rparr>"
proof -
  let ?intro = "''https://example.com/docs/intro''"
  have s: "flaky_state = crawl_run flaky_world 1
             (NewScraper (url_Parse flaky_world) ''https://example.com/docs'' ''out/docs.md''
                ByPages False)"
    by (simp add: flaky_state_def example_scraper_def flaky_world_fields)
  have a: "links flaky_state = ?intro # [?intro]" by (simp add: flaky_state_fields)
  have b: "\<not> map_get (processed flaky_state) ?intro" by (rule flaky_state_unprocessed)
  have c: "scrapePage flaky_world (scraper flaky_state) (tick flaky_state) ?intro = Inl ''timeout''"
    by (rule flaky_scrape_intro)
  have "\<forall>u rest err.
            links flaky_state = u # rest \<and> \<not> map_get (processed flaky_state) u \<and>
            scrapePage flaky_world (scraper flaky_state) (tick flaky_state) u = Inl err \<longrightarrow>
            crawl_step flaky_world flaky_state =
              flaky_state\<lparr>links := rest, tick := Suc (tick flaky_state),
                 dequeued := dequeued flaky_state @ [u],
                 fetched := fetched flaky_state @ [u], failed := failed flaky_state @ [u]\<rparr>"
    unfolding s
    by (rule crawl_failed_page [THEN conjunct2, THEN conjunct2, THEN conjunct2])
  then have "links flaky_state = ?intro # [?intro] \<and> \<not> map_get (processed flaky_state) ?intro \<and>
            scrapePage flaky_world (scraper flaky_state) (tick flaky_state) ?intro = Inl ''timeout'' \<longrightarrow>
            crawl_step flaky_world flaky_state =
              flaky_state\<lparr>links := [?intro], tick := Suc (tick flaky_state),
                 dequeued := dequeued flaky_state @ [?intro],
                 fetched := fetched flaky_state @ [?intro],
                 failed := failed flaky_state @ [?intro]\<rparr>"
    by (elim allE)
  with a b c have d: "crawl_step flaky_world flaky_state =
              flaky_state\<lparr>links := [?intro], tick := Suc (tick flaky_state),
                 dequeued := dequeued flaky_state @ [?intro],
                 fetched := fetched flaky_state @ [?intro],
                 failed := failed flaky_state @ [?intro]\<rparr>"
    by (elim impE) (intro conjI)
  from a b c d show ?thesis by (intro conjI)
qed

text \<open>
  Claim C2 as stated fails on the flaky site: the second iteration fails to scrape
  \<^verbatim>\<open>https://example.com/docs/intro\<close>, and the third iteration, which finds the same URL
  in the queue again, fetches it again.
\<close>

theorem crawl_fetches_failed_page_again:
  "failed (crawl_step flaky_world flaky_state) = [''https://example.com/docs/intro''] \<and>
   fetched (crawl_step flaky_world (crawl_step flaky_world flaky_state)) =
     [''https://example.com/docs'', ''https://example.com/docs/intro'',
      ''https://example.com/docs/intro'']"
proof -
  let ?intro = "''https://example.com/docs/intro''"
  let ?st2 = "crawl_step flaky_world flaky_state"
  have l: "links flaky_state = ?intro # [?intro]" by (simp add: flaky_state_fields)
  note step2 = crawl_step_failed [OF l flaky_state_unprocessed flaky_scrape_intro]
  have l2: "links ?st2 = ?intro # []" by (simp add: step2)
  have p2: "\<not> map_get (processed ?st2) ?intro"
    using flaky_state_unprocessed by (simp add: step2)
  note step3 = crawl_step_failed [OF l2 p2 flaky_scrape_intro]
  have "failed ?st2 = [?intro]" by (simp add: step2 flaky_state_fields)
  moreover have "fetched ?st2 = [''https://example.com/docs'', ?intro]"
    by (simp add: step2 flaky_state_fields)
  then have "fetched (crawl_step flaky_world ?st2) = [''https://example.com/docs'', ?intro, ?intro]"
    by (simp add: step3)
  ultimately show ?thesis by (intro conjI)
qed

text \<open>
  Claim C9. At every iteration boundary of every crawl that starts from a new scraper,
  the scraper's \<^verbatim>\<open>visitedURLs\<close> map is empty, also with the pages that the loop
  appends; the loop keeps its own \<^verbatim>\<open>processed\<close> map in the crawl state. So the
  visited test of \<^verbatim>\<open>shouldProcessURL\<close> is never true during a run, and the function
  decides by the parse results, the hosts and the denylist alone.
\<close>

theorem visitedURLs_never_populated:
  fixes w :: world and n :: nat and rawURL out :: string and org :: Organization and single :: bool
  defines "st \<equiv> crawl_run w n (NewScraper (url_Parse w) rawURL out org single)"
  shows "visitedURLs (scraper st) = Map.empty \<and>
         \<not> map_get (visitedURLs (scraper st)) u \<and>
         \<not> map_get (visitedURLs ((scraper st)\<lparr>pages := ps\<rparr>)) u \<and>
         shouldProcessURL parse ((scraper st)\<lparr>pages := ps\<rparr>) u =
           (case parse (baseURL (scraper st)) of
              None \<Rightarrow> False
            | Some b \<Rightarrow>
                (case parse u of
                   None \<Rightarrow> False
                 | Some c \<Rightarrow>
                     Host c = Host b \<and>
                     \<not> list_ex (\<lambda>ignore. Contains (TrimPrefix (Path c) (Path b)) ignore)
                         ignorePaths))"
proof -
  let ?s = "NewScraper (url_Parse w) rawURL out org single"
  have inv: "crawl_inv ?s st"
    unfolding st_def by (rule crawl_inv_run) (rule NewScraper_pages)
  then have "(scraper st)\<lparr>pages := []\<rparr> = ?s" by (simp add: crawl_inv_def)
  then have "visitedURLs ((scraper st)\<lparr>pages := []\<rparr>) = visitedURLs ?s" by simp
  then have 1: "visitedURLs (scraper st) = Map.empty" by (simp add: NewScraper_def)
  then have 2: "\<not> map_get (visitedURLs (scraper st)) u"
    and 3: "\<not> map_get (visitedURLs ((scraper st)\<lparr>pages := ps\<rparr>)) u"
    by (simp_all add: map_get_empty)
  have 4: "shouldProcessURL parse ((scraper st)\<lparr>pages := ps\<rparr>) u =
           (case parse (baseURL (scraper st)) of
              None \<Rightarrow> False
            | Some b \<Rightarrow>
                (case parse u of
                   None \<Rightarrow> False
                 | Some c \<Rightarrow>
                     Host c = Host b \<and>
                     \<not> list_ex (\<lambda>ignore. Contains (TrimPrefix (Path c) (Path b)) ignore)
                         ignorePaths))"
    using 3 by (auto simp: shouldProcessURL_def Let_def split: option.splits)
  from 1 2 3 4 show ?thesis by (intro conjI)
qed

end
